theory Spec2Isabelle
  imports Complex_Main
begin

chapter \<open>Freeform State Manager: a model of \<^verbatim>\<open>freeform_state_manager.js\<close>\<close>

text \<open>
  The class \<^verbatim>\<open>FreeformStateManager\<close> saves the fields of a web form to browser storage
  and writes them back onto the form after a page change. The model below follows the
  source method by method. What the browser provides (the DOM, \<^verbatim>\<open>FormData\<close>, storage,
  timers, \<^verbatim>\<open>JSON\<close>) is modelled as far as the methods read or write it:

  \<^item> a form is the list of its controls in document order, each a record of the
    properties the code touches, together with the state of the two custom widgets;
  \<^item> a JavaScript object is the list of its own properties in enumeration order;
  \<^item> a thrown exception is a value of type \<open>error\<close>;
  \<^item> time is an integer number of milliseconds, timers are a list of pending tasks.

  The code pastes field names and form ids into CSS selectors and uses field names as
  keys of a plain object. On most names this is a comparison of strings, and the model
  follows it. On the others (a name with a quote, a form id like \<^verbatim>\<open>my.form\<close>, a field called
  \<^verbatim>\<open>constructor\<close>) the outcome depends on the selector grammar and on the prototype chain.
  There the model does not guess: the run ends with the mark \<open>Unmodelled\<close>, and every
  property below is stated for runs that do not end so.

  Not modelled at all: the value sanitisation of typed inputs (\<^verbatim>\<open>number\<close>, \<^verbatim>\<open>date\<close>, ...),
  buttons and other elements with a \<^verbatim>\<open>name\<close> attribute that are not form controls, the
  special treatment of a hidden field called \<^verbatim>\<open>_charset_\<close> and of the \<^verbatim>\<open>dirname\<close> attribute by
  \<^verbatim>\<open>FormData\<close>, listeners of other scripts, a document in quirks mode, additions of other
  scripts to \<^verbatim>\<open>Object.prototype\<close>, and failures of the storage itself (quota, disabled
  storage).
\<close>

section \<open>Strings\<close>

text \<open>\<^verbatim>\<open>key.startsWith('_')\<close>, \<^verbatim>\<open>key.endsWith(s)\<close> and \<^verbatim>\<open>key.replace(s, '')\<close>, which
  replaces the first occurrence of \<open>s\<close> only.\<close>

fun startsWith_underscore :: "string \<Rightarrow> bool" where
  "startsWith_underscore [] = False"
| "startsWith_underscore (c # cs) = (c = CHR ''_'')"

definition endsWith :: "string \<Rightarrow> string \<Rightarrow> bool" where
  "endsWith key s = (length s \<le> length key \<and> drop (length key - length s) key = s)"

fun remove_first :: "string \<Rightarrow> string \<Rightarrow> string" where
  "remove_first s [] = []"
| "remove_first s (c # cs) =
     (if take (length s) (c # cs) = s then drop (length s) (c # cs)
      else c # remove_first s cs)"

text \<open>Decimal digits of a natural number, as \<^verbatim>\<open>String(n)\<close> prints an integer.\<close>

definition digit :: "nat \<Rightarrow> char" where
  "digit d = ''0123456789'' ! d"

fun dec :: "nat \<Rightarrow> string" where
  "dec n = (if n < 10 then [digit n] else dec (n div 10) @ [digit (n mod 10)])"

declare dec.simps [simp del]

section \<open>JavaScript objects\<close>

text \<open>
  An object is the list of its own properties in the order \<^verbatim>\<open>Object.entries\<close> and
  \<^verbatim>\<open>JSON.stringify\<close> visit them: keys that are array indices (canonical decimal numbers
  below \<open>2^32 - 1\<close>) first, in ascending numeric order, then all other keys in the order
  in which they were created. Assigning to an existing key keeps its place.
\<close>

type_synonym 'v obj = "(string \<times> 'v) list"

definition is_digit :: "char \<Rightarrow> bool" where
  "is_digit c = (48 \<le> (of_char c :: nat) \<and> (of_char c :: nat) \<le> 57)"

definition number_of :: "string \<Rightarrow> nat" where
  "number_of s = foldl (\<lambda>n c. 10 * n + (of_char c - 48)) 0 s"

definition array_index :: "string \<Rightarrow> nat option" where
  "array_index s =
     (if s \<noteq> [] \<and> list_all is_digit s \<and> (length s = 1 \<or> hd s \<noteq> CHR ''0'')
         \<and> number_of s < 4294967295
      then Some (number_of s) else None)"

fun replace_prop :: "string \<Rightarrow> 'v \<Rightarrow> 'v obj \<Rightarrow> 'v obj" where
  "replace_prop k v [] = []"
| "replace_prop k v (p # ps) = (if fst p = k then (k, v) # ps else p # replace_prop k v ps)"

fun insert_index :: "nat \<Rightarrow> string \<Rightarrow> 'v \<Rightarrow> 'v obj \<Rightarrow> 'v obj" where
  "insert_index i k v [] = [(k, v)]"
| "insert_index i k v (p # ps) =
     (case array_index (fst p) of
        None \<Rightarrow> (k, v) # p # ps
      | Some j \<Rightarrow> if j < i then p # insert_index i k v ps else (k, v) # p # ps)"

text \<open>\<^verbatim>\<open>obj[k] = v\<close>\<close>

definition obj_set :: "string \<Rightarrow> 'v \<Rightarrow> 'v obj \<Rightarrow> 'v obj" where
  "obj_set k v ob =
     (if k \<in> set (map fst ob) then replace_prop k v ob
      else case array_index k of
             None \<Rightarrow> ob @ [(k, v)]
           | Some i \<Rightarrow> insert_index i k v ob)"

text \<open>
  The own property \<open>k\<close> of an object, with \<open>None\<close> when there is none. This is \<^verbatim>\<open>obj[k]\<close> for
  the two fixed keys \<^verbatim>\<open>_custom\<close> and \<^verbatim>\<open>_unchecked\<close>. A plain object also answers to the names it
  inherits from \<^verbatim>\<open>Object.prototype\<close>, listed here: \<^verbatim>\<open>({})['constructor']\<close> is a function,
  \<^verbatim>\<open>({})['__proto__']\<close> the prototype itself. Where the code reads under a key that the page
  chooses, the model uses \<open>obj_read\<close> below.
\<close>

definition inherited :: "string list" where
  "inherited =
     [''constructor'', ''__defineGetter__'', ''__defineSetter__'', ''hasOwnProperty'',
      ''__lookupGetter__'', ''__lookupSetter__'', ''isPrototypeOf'', ''propertyIsEnumerable'',
      ''toString'', ''valueOf'', ''__proto__'', ''toLocaleString'']"

definition obj_get :: "'v obj \<Rightarrow> string \<Rightarrow> 'v option" where
  "obj_get ob k = map_of ob k"

section \<open>Selectors\<close>

text \<open>
  The code builds its selectors by pasting a string between the quotes of
  \<^verbatim>\<open>[name="..."]\<close> or behind \<^verbatim>\<open>#\<close>.

  Between the quotes, a string without a double quote, a backslash, a line break (line
  feed, carriage return, form feed) and a NUL is read back as it is, so the selector
  matches the elements whose \<^verbatim>\<open>name\<close> attribute equals the string (\<open>selector_safe\<close>). With
  one of these characters the selector may be invalid (\<^verbatim>\<open>querySelector\<close> throws) or mean
  something else: \<^verbatim>\<open>a"],[name="b\<close> gives a list of two selectors.

  Behind \<^verbatim>\<open>#\<close>, a non-empty string of ASCII letters, digits, \<^verbatim>\<open>_\<close> and \<^verbatim>\<open>-\<close> that starts with a
  letter or \<^verbatim>\<open>_\<close> is an identifier, so the selector matches the elements with that \<^verbatim>\<open>id\<close>
  (\<open>css_ident\<close>). Other strings are invalid (\<^verbatim>\<open>#123\<close>) or mean something else (\<^verbatim>\<open>#my.form\<close> is
  the id \<^verbatim>\<open>my\<close> with the class \<^verbatim>\<open>form\<close>), or are identifiers of a shape left out here (a
  leading \<^verbatim>\<open>-\<close>, escapes, characters outside ASCII).
\<close>

definition selector_safe :: "string \<Rightarrow> bool" where
  "selector_safe n = list_all (\<lambda>c. (of_char c :: nat) \<notin> set [0, 10, 12, 13, 34, 92]) n"

definition name_start :: "char \<Rightarrow> bool" where
  "name_start c =
     ((65 \<le> (of_char c :: nat) \<and> (of_char c :: nat) \<le> 90)
      \<or> (97 \<le> (of_char c :: nat) \<and> (of_char c :: nat) \<le> 122)
      \<or> c = CHR ''_'')"

definition css_ident :: "string \<Rightarrow> bool" where
  "css_ident s =
     (s \<noteq> [] \<and> name_start (hd s)
      \<and> list_all (\<lambda>c. name_start c \<or> is_digit c \<or> c = CHR ''-'') s)"

section \<open>Values of a snapshot\<close>

text \<open>
  The file reference \<^verbatim>\<open>{name, size, type}\<close> that \<^verbatim>\<open>extractCustomElements\<close> builds from a
  \<^verbatim>\<open>File\<close>, and the two kinds of value it stores in \<^verbatim>\<open>state._custom\<close>: the flag \<^verbatim>\<open>true\<close> and a
  list of file references.
\<close>

record file_ref =
  file_name :: string
  file_size :: nat
  file_type :: string

datatype cval = CTrue | CFiles "file_ref list"

text \<open>
  The values that occur in a state object: a string, a \<^verbatim>\<open>File\<close> (the value \<^verbatim>\<open>FormData\<close>
  gives a file input), an array, and a plain object with the entries of \<^verbatim>\<open>_custom\<close>.
  \<^verbatim>\<open>JSON.stringify\<close> writes a \<^verbatim>\<open>File\<close> as \<^verbatim>\<open>{}\<close>, which is \<open>Custom []\<close>.
\<close>

datatype jsval =
    Str string
  | FileObj
  | Arr "jsval list"
  | Custom "cval obj"

type_synonym state = "jsval obj"

text \<open>\<^verbatim>\<open>if (v)\<close>: only the empty string is falsy among these values.\<close>

fun truthy :: "jsval \<Rightarrow> bool" where
  "truthy (Str s) = (s \<noteq> [])"
| "truthy FileObj = True"
| "truthy (Arr xs) = True"
| "truthy (Custom c) = True"

fun join :: "string \<Rightarrow> string list \<Rightarrow> string" where
  "join sep [] = []"
| "join sep [s] = s"
| "join sep (s # t # ss) = s @ sep @ join sep (t # ss)"

text \<open>The conversion to a string that a template literal or a DOM setter applies.\<close>

fun to_string :: "jsval \<Rightarrow> string" where
  "to_string (Str s) = s"
| "to_string FileObj = ''[object File]''"
| "to_string (Arr xs) = join '','' (map to_string xs)"
| "to_string (Custom c) = ''[object Object]''"

text \<open>\<^verbatim>\<open>JSON.parse(JSON.stringify(v))\<close>\<close>

fun json :: "jsval \<Rightarrow> jsval" where
  "json (Str s) = Str s"
| "json FileObj = Custom []"
| "json (Arr xs) = Arr (map json xs)"
| "json (Custom c) = Custom c"

definition json_state :: "state \<Rightarrow> state" where
  "json_state st = map (\<lambda>kv. (fst kv, json (snd kv))) st"

section \<open>The form\<close>

text \<open>
  \<open>Text\<close> stands for every input type of the \<^verbatim>\<open>default\<close> branches (text, email, tel, ...),
  \<open>Hidden\<close> is kept apart because the dropdown widget looks for \<^verbatim>\<open>input[type="hidden"]\<close>.
\<close>

datatype kind = Text | Hidden | Textarea | SelectOne | SelectMultiple | Checkbox | Radio | FileInput

record option_el =
  o_value :: string
  o_selected :: bool
  o_disabled :: bool

text \<open>
  A control. \<open>e_name\<close> is the \<^verbatim>\<open>name\<close> attribute (\<open>None\<close> when absent), \<open>e_value\<close> the
  \<^verbatim>\<open>value\<close> property (for a checkbox or radio the value it submits), \<open>e_dropdown\<close> and
  \<open>e_uploader\<close> the \<^verbatim>\<open>.selectMultiple\<close> and \<^verbatim>\<open>.fileuploader-input\<close> container the control
  lies in (containers are numbered in document order and do not nest), \<open>e_parent\<close>
  its parent node. \<open>e_class_input\<close> tells whether the control has the class
  \<^verbatim>\<open>freeform-input\<close>, and \<open>e_savers\<close> counts the elements on the way of a bubbling event
  that \<^verbatim>\<open>attachFreeformListeners\<close> gives a \<^verbatim>\<open>change\<close> listener: among the control and its
  ancestors inside the form, those that match \<^verbatim>\<open>.fileuploader\<close>, plus those that match
  \<^verbatim>\<open>.checklist, .deutschFremd\<close>.
\<close>

record element =
  e_kind :: kind
  e_name :: "string option"
  e_value :: string
  e_checked :: bool
  e_options :: "option_el list"
  e_files :: "file_ref list"
  e_disabled :: bool
  e_dropdown :: "nat option"
  e_uploader :: "nat option"
  e_parent :: nat
  e_class_input :: bool
  e_savers :: nat

text \<open>
  A form: its controls, for each \<^verbatim>\<open>.selectMultiple\<close> container whether it has the class
  \<^verbatim>\<open>open\<close>, the number of \<^verbatim>\<open>.fileuploader-input\<close> containers, the
  \<^verbatim>\<open>.restored-files-info\<close> notices by parent node, each a list of file names with their
  formatted sizes, and how many times \<^verbatim>\<open>attachFormListeners\<close> has put its listeners on the
  form and its controls (\<^verbatim>\<open>addEventListener\<close> with a new function each time, so a second
  call doubles them).
\<close>

record form =
  form_id :: string
  form_name :: string
  elems :: "element list"
  dropdowns :: "bool list"
  uploaders :: nat
  notices :: "(nat \<times> (string \<times> string) list) list"
  listeners :: nat

text \<open>The \<^verbatim>\<open>name\<close> property: the empty string when there is no attribute.\<close>

definition name_of :: "element \<Rightarrow> string" where
  "name_of e = (case e_name e of None \<Rightarrow> [] | Some n \<Rightarrow> n)"

text \<open>
  \<^verbatim>\<open>new FormData(form).entries()\<close>: the entry list of the HTML standard without a
  submitter. Disabled and unnamed controls and unchecked boxes are left out; a select
  gives one entry per selected enabled option, a file input one \<^verbatim>\<open>File\<close> per selected
  file, or a single empty \<^verbatim>\<open>File\<close> when nothing is selected.
\<close>

definition entries_of :: "element \<Rightarrow> (string \<times> jsval) list" where
  "entries_of e =
     (if e_disabled e \<or> name_of e = [] then []
      else case e_kind e of
          Checkbox \<Rightarrow> if e_checked e then [(name_of e, Str (e_value e))] else []
        | Radio \<Rightarrow> if e_checked e then [(name_of e, Str (e_value e))] else []
        | SelectOne \<Rightarrow>
            map (\<lambda>p. (name_of e, Str (o_value p)))
              (filter (\<lambda>p. o_selected p \<and> \<not> o_disabled p) (e_options e))
        | SelectMultiple \<Rightarrow>
            map (\<lambda>p. (name_of e, Str (o_value p)))
              (filter (\<lambda>p. o_selected p \<and> \<not> o_disabled p) (e_options e))
        | FileInput \<Rightarrow>
            if e_files e = [] then [(name_of e, FileObj)]
            else map (\<lambda>f. (name_of e, FileObj)) (e_files e)
        | _ \<Rightarrow> [(name_of e, Str (e_value e))])"

definition FormData :: "form \<Rightarrow> (string \<times> jsval) list" where
  "FormData f = concat (map entries_of (elems f))"

section \<open>Encoding: \<^verbatim>\<open>extractFormState\<close>\<close>

text \<open>
  The two exceptions that occur, and the mark \<open>Unmodelled\<close>. The mark is not an exception
  of the program: it says that the run has gone beyond what the model follows, and
  whatever comes with it has no meaning.
\<close>

datatype error = TypeError | SyntaxError | Unmodelled

text \<open>
  The read \<^verbatim>\<open>state[key]\<close> in the first loop of \<^verbatim>\<open>extractFormState\<close>: the own property, if
  there is one, else \<^verbatim>\<open>undefined\<close> (\<open>None\<close>). Under an inherited name without an own property
  the read finds a function, or the prototype itself, and what the loop does with it (an
  array that starts with a function; for \<^verbatim>\<open>__proto__\<close> a state object with another
  prototype) is outside the values of the model.
\<close>

definition obj_read :: "state \<Rightarrow> string \<Rightarrow> error + jsval option" where
  "obj_read st k =
     (case obj_get st k of
        Some v \<Rightarrow> Inr (Some v)
      | None \<Rightarrow> if k \<in> set inherited then Inl Unmodelled else Inr None)"

text \<open>The body of the loop over \<^verbatim>\<open>formData.entries()\<close>, and the loop.\<close>

definition accumulate :: "string list \<Rightarrow> state \<Rightarrow> string \<times> jsval \<Rightarrow> error + state" where
  "accumulate excludeFields st kv =
     (if fst kv \<in> set excludeFields then Inr st
      else case obj_read st (fst kv) of
          Inl err \<Rightarrow> Inl err
        | Inr None \<Rightarrow> Inr (obj_set (fst kv) (snd kv) st)
        | Inr (Some cur) \<Rightarrow>
            if truthy cur then
              (case cur of
                 Arr xs \<Rightarrow> Inr (obj_set (fst kv) (Arr (xs @ [snd kv])) st)
               | _ \<Rightarrow> Inr (obj_set (fst kv) (Arr [cur, snd kv]) st))
            else Inr (obj_set (fst kv) (snd kv) st))"

fun accumulate_all :: "string list \<Rightarrow> state \<Rightarrow> (string \<times> jsval) list \<Rightarrow> error + state" where
  "accumulate_all excludeFields st [] = Inr st"
| "accumulate_all excludeFields st (kv # kvs) =
     (case accumulate excludeFields st kv of
        Inl err \<Rightarrow> Inl err
      | Inr st' \<Rightarrow> accumulate_all excludeFields st' kvs)"

text \<open>
  The body of the loop over \<^verbatim>\<open>input[type="checkbox"]\<close>. \<^verbatim>\<open>state._unchecked.push\<close> throws
  a \<^verbatim>\<open>TypeError\<close> when a field named \<^verbatim>\<open>_unchecked\<close> has put a non-empty string or a file
  there.
\<close>

definition track_unchecked :: "string list \<Rightarrow> state \<Rightarrow> element \<Rightarrow> error + state" where
  "track_unchecked excludeFields st checkbox =
     (if name_of checkbox \<in> set excludeFields then Inr st
      else if e_checked checkbox then Inr st
      else
        let st' = (case obj_get st ''_unchecked'' of
                     None \<Rightarrow> obj_set ''_unchecked'' (Arr []) st
                   | Some u \<Rightarrow> if truthy u then st else obj_set ''_unchecked'' (Arr []) st)
        in case obj_get st' ''_unchecked'' of
             Some (Arr xs) \<Rightarrow> Inr (obj_set ''_unchecked'' (Arr (xs @ [Str (name_of checkbox)])) st')
           | _ \<Rightarrow> Inl TypeError)"

fun track_all :: "string list \<Rightarrow> state \<Rightarrow> element list \<Rightarrow> error + state" where
  "track_all excludeFields st [] = Inr st"
| "track_all excludeFields st (c # cs) =
     (case track_unchecked excludeFields st c of
        Inl err \<Rightarrow> Inl err
      | Inr st' \<Rightarrow> track_all excludeFields st' cs)"

text \<open>
  The body of the loop over \<^verbatim>\<open>input[type="radio"]:checked\<close>. The assignment creates an own
  property, also under an inherited name, with one exception: \<^verbatim>\<open>state['__proto__'] = s\<close>
  calls the setter of the prototype, which ignores a string.
\<close>

definition record_radio :: "string list \<Rightarrow> state \<Rightarrow> element \<Rightarrow> state" where
  "record_radio excludeFields st radio =
     (if name_of radio \<in> set excludeFields then st
      else if name_of radio = ''__proto__'' then st
      else obj_set (name_of radio) (Str (e_value radio)) st)"

text \<open>
  \<^verbatim>\<open>extractCustomElements\<close>: for every open dropdown the first hidden input inside it,
  for every uploader container the first file input inside it.
\<close>

definition dropdown_input :: "form \<Rightarrow> nat \<Rightarrow> element option" where
  "dropdown_input f d = find (\<lambda>e. e_kind e = Hidden \<and> e_dropdown e = Some d) (elems f)"

definition uploader_input :: "form \<Rightarrow> nat \<Rightarrow> element option" where
  "uploader_input f u = find (\<lambda>e. e_kind e = FileInput \<and> e_uploader e = Some u) (elems f)"

definition custom_open :: "form \<Rightarrow> cval obj \<Rightarrow> nat \<Rightarrow> cval obj" where
  "custom_open f custom d =
     (case dropdown_input f d of
        None \<Rightarrow> custom
      | Some input \<Rightarrow>
          if name_of input \<noteq> [] then obj_set (name_of input @ ''_open'') CTrue custom
          else custom)"

definition custom_files :: "form \<Rightarrow> cval obj \<Rightarrow> nat \<Rightarrow> cval obj" where
  "custom_files f custom u =
     (case uploader_input f u of
        None \<Rightarrow> custom
      | Some input \<Rightarrow>
          if e_files input \<noteq> [] then obj_set (name_of input @ ''_files'') (CFiles (e_files input)) custom
          else custom)"

definition extractCustomElements :: "form \<Rightarrow> cval obj" where
  "extractCustomElements f =
     foldl (custom_files f)
       (foldl (custom_open f) [] (filter (\<lambda>d. dropdowns f ! d) [0 ..< length (dropdowns f)]))
       [0 ..< uploaders f]"

text \<open>\<^verbatim>\<open>extractFormState\<close>: the four parts in the order of the source.\<close>

definition extractFormState :: "string list \<Rightarrow> form \<Rightarrow> error + state" where
  "extractFormState excludeFields f =
     (case accumulate_all excludeFields [] (FormData f) of
        Inl err \<Rightarrow> Inl err
      | Inr st0 \<Rightarrow>
          (case track_all excludeFields st0 (filter (\<lambda>e. e_kind e = Checkbox) (elems f)) of
             Inl err \<Rightarrow> Inl err
           | Inr st \<Rightarrow>
               Inr (obj_set ''_custom'' (Custom (extractCustomElements f))
                      (foldl (record_radio excludeFields) st
                         (filter (\<lambda>e. e_kind e = Radio \<and> e_checked e) (elems f))))))"

section \<open>File sizes: \<^verbatim>\<open>formatFileSize\<close>\<close>

text \<open>
  \<^verbatim>\<open>Math.floor(Math.log(bytes) / Math.log(k))\<close> is taken as the exact integer logarithm: the
  largest \<open>i\<close> with \<open>k ^ i \<le> bytes\<close>. (The source computes it in floating point.)
\<close>

fun floor_log :: "nat \<Rightarrow> nat \<Rightarrow> nat" where
  "floor_log k n = (if n < k \<or> k < 2 then 0 else Suc (floor_log k (n div k)))"

declare floor_log.simps [simp del]

text \<open>
  \<^verbatim>\<open>(bytes / Math.pow(k, i)).toFixed(2)\<close> as a number of hundredths. The quotient by a
  power of two is exact, and \<^verbatim>\<open>toFixed\<close> picks the nearest multiple of \<open>1/100\<close>, the
  larger one on a tie.
\<close>

definition toFixed2 :: "nat \<Rightarrow> nat \<Rightarrow> nat" where
  "toFixed2 bytes d = (200 * bytes + d) div (2 * d)"

text \<open>
  \<^verbatim>\<open>parseFloat(...) + ' '\<close>: the number is printed again in its shortest form, so the
  zeros at the end of the fraction, and a fraction of zero, disappear.
\<close>

definition parseFloat_string :: "nat \<Rightarrow> string" where
  "parseFloat_string h =
     dec (h div 100) @
     (if h mod 100 = 0 then []
      else ''.'' @ [digit (h mod 100 div 10)] @ (if h mod 10 = 0 then [] else [digit (h mod 10)]))"

definition sizes :: "string list" where
  "sizes = [''Bytes'', ''KB'', ''MB'', ''GB'']"

definition formatFileSize :: "nat \<Rightarrow> string" where
  "formatFileSize bytes =
     (if bytes = 0 then ''0 Bytes''
      else
        let k = 1024;
            i = floor_log k bytes
        in parseFloat_string (toFixed2 bytes (k ^ i)) @ '' '' @
           (if i < length sizes then sizes ! i else ''undefined''))"

section \<open>Decoding: \<^verbatim>\<open>applyFormState\<close>\<close>

text \<open>
  Setting \<^verbatim>\<open>checked\<close>. Checking a radio button unchecks the other buttons of its group:
  the radios of the form that carry the same non-empty name.
\<close>

definition same_group :: "element \<Rightarrow> element \<Rightarrow> bool" where
  "same_group a b =
     (e_kind b = Radio \<and> e_name a \<noteq> None \<and> e_name a \<noteq> Some [] \<and> e_name b = e_name a)"

definition uncheck_group :: "element \<Rightarrow> element list \<Rightarrow> element list" where
  "uncheck_group a es = map (\<lambda>b. if same_group a b then b\<lparr>e_checked := False\<rparr> else b) es"

definition set_checked :: "element list \<Rightarrow> nat \<Rightarrow> bool \<Rightarrow> element list" where
  "set_checked es i b =
     (if e_kind (es ! i) = Radio \<and> b
      then (uncheck_group (es ! i) es)[i := (es ! i)\<lparr>e_checked := True\<rparr>]
      else es[i := (es ! i)\<lparr>e_checked := b\<rparr>])"

text \<open>
  Setting \<^verbatim>\<open>value\<close> on a \<^verbatim>\<open>select\<close>: every option is deselected, then the first option
  with that value, if there is one, is selected.
\<close>

fun select_value :: "string \<Rightarrow> option_el list \<Rightarrow> option_el list" where
  "select_value v [] = []"
| "select_value v (p # ps) =
     (if o_value p = v then p\<lparr>o_selected := True\<rparr> # map (\<lambda>q. q\<lparr>o_selected := False\<rparr>) ps
      else p\<lparr>o_selected := False\<rparr> # select_value v ps)"

text \<open>\<^verbatim>\<open>Array.isArray(value) ? value.includes(s) : value === s\<close>\<close>

fun matches :: "jsval \<Rightarrow> string \<Rightarrow> bool" where
  "matches (Arr xs) s = (Str s \<in> set xs)"
| "matches v s = (v = Str s)"

text \<open>
  \<^verbatim>\<open>Array.isArray(value) ? value[0] : value\<close>, converted to the string the \<^verbatim>\<open>value\<close> setter
  stores; the first element of an empty array is \<^verbatim>\<open>undefined\<close>.
\<close>

fun first_or_self :: "jsval \<Rightarrow> string" where
  "first_or_self (Arr []) = ''undefined''"
| "first_or_self (Arr (x # xs)) = to_string x"
| "first_or_self v = to_string v"

text \<open>
  The body of the loop of \<^verbatim>\<open>restoreField\<close>, for the element at position \<open>i\<close>: what the
  \<^verbatim>\<open>switch\<close> does to the form. The \<^verbatim>\<open>change\<close> event that the body dispatches next is recorded by
  \<open>field_events\<close> below.
\<close>

definition restore_element :: "jsval \<Rightarrow> element list \<Rightarrow> nat \<Rightarrow> element list" where
  "restore_element v es i =
     (let element = es ! i in
      case e_kind element of
        Checkbox \<Rightarrow> set_checked es i (matches v (e_value element))
      | Radio \<Rightarrow> set_checked es i (v = Str (e_value element))
      | SelectMultiple \<Rightarrow>
          es[i := element\<lparr>e_options :=
                   map (\<lambda>p. p\<lparr>o_selected := matches v (o_value p)\<rparr>) (e_options element)\<rparr>]
      | FileInput \<Rightarrow> es
      | SelectOne \<Rightarrow>
          es[i := element\<lparr>e_options := select_value (first_or_self v) (e_options element)\<rparr>]
      | _ \<Rightarrow> es[i := element\<lparr>e_value := first_or_self v\<rparr>])"

text \<open>
  \<^verbatim>\<open>form.querySelectorAll(`[name="${name}"]`)\<close>: for a name that is \<open>selector_safe\<close>, the
  positions, in document order, of the elements whose \<^verbatim>\<open>name\<close> attribute is that name. What
  the selector means with another name is not modelled.
\<close>

definition named :: "element list \<Rightarrow> string \<Rightarrow> error + nat list" where
  "named es name =
     (if selector_safe name
      then Inr (filter (\<lambda>i. e_name (es ! i) = Some name) [0 ..< length es])
      else Inl Unmodelled)"

definition restoreField :: "form \<Rightarrow> string \<Rightarrow> jsval \<Rightarrow> error + form" where
  "restoreField f name v =
     (case named (elems f) name of
        Inl err \<Rightarrow> Inl err
      | Inr elements \<Rightarrow> Inr (f\<lparr>elems := foldl (restore_element v) (elems f) elements\<rparr>))"

text \<open>
  \<^verbatim>\<open>element.dispatchEvent(new Event('change', { bubbles: true }))\<close>, the last statement of
  the loop body, also for a file input: the events that \<^verbatim>\<open>restoreField\<close> dispatches, each
  with the position of its target and the controls of the form as they are at that
  moment (the target is restored, the elements after it are not yet).
\<close>

fun field_events :: "jsval \<Rightarrow> element list \<Rightarrow> nat list \<Rightarrow> (nat \<times> element list) list" where
  "field_events v es [] = []"
| "field_events v es (i # is) =
     (i, restore_element v es i) # field_events v (restore_element v es i) is"

text \<open>
  \<^verbatim>\<open>displayFileInfo\<close>: the notice under the parent of the file input is created or
  overwritten; it lists each file name with its formatted size.
\<close>

definition displayFileInfo :: "form \<Rightarrow> element \<Rightarrow> file_ref list \<Rightarrow> form" where
  "displayFileInfo f fileInput fileInfos =
     f\<lparr>notices :=
         (e_parent fileInput, map (\<lambda>file. (file_name file, formatFileSize (file_size file))) fileInfos)
         # filter (\<lambda>n. fst n \<noteq> e_parent fileInput) (notices f)\<rparr>"

definition is_input :: "element \<Rightarrow> bool" where
  "is_input e = (e_kind e \<in> {Text, Hidden, Checkbox, Radio, FileInput})"

text \<open>
  The two lookups of \<^verbatim>\<open>restoreCustomElements\<close>:
  \<^verbatim>\<open>form.querySelector(`.selectMultiple input[name="${selectName}"]`)?.closest('.selectMultiple')\<close>
  gives the dropdown around the first input with the name that lies in a dropdown,
  \<^verbatim>\<open>form.querySelector(`input[type="file"][name="${inputName}"]`)\<close> the first file input with
  the name; both for a name that is \<open>selector_safe\<close>.
\<close>

definition dropdown_of :: "form \<Rightarrow> string \<Rightarrow> error + nat option" where
  "dropdown_of f selectName =
     (if selector_safe selectName
      then Inr (case find (\<lambda>e. is_input e \<and> e_name e = Some selectName \<and> e_dropdown e \<noteq> None)
                       (elems f) of
                  None \<Rightarrow> None
                | Some input \<Rightarrow> e_dropdown input)
      else Inl Unmodelled)"

definition file_input_of :: "form \<Rightarrow> string \<Rightarrow> error + element option" where
  "file_input_of f inputName =
     (if selector_safe inputName
      then Inr (find (\<lambda>e. e_kind e = FileInput \<and> e_name e = Some inputName) (elems f))
      else Inl Unmodelled)"

text \<open>
  The body of the loop of \<^verbatim>\<open>restoreCustomElements\<close>, and the loop. Both values that occur
  in \<^verbatim>\<open>_custom\<close> are truthy, so \<^verbatim>\<open>select && value\<close> holds when the dropdown is found.
\<close>

definition restore_custom :: "form \<Rightarrow> string \<times> cval \<Rightarrow> error + form" where
  "restore_custom f kv =
     (case (if endsWith (fst kv) ''_open'' then
              (case dropdown_of f (remove_first ''_open'' (fst kv)) of
                 Inl err \<Rightarrow> Inl err
               | Inr None \<Rightarrow> Inr f
               | Inr (Some d) \<Rightarrow> Inr (f\<lparr>dropdowns := (dropdowns f)[d := True]\<rparr>))
            else Inr f) of
        Inl err \<Rightarrow> Inl err
      | Inr f1 \<Rightarrow>
          if endsWith (fst kv) ''_files'' then
            (case file_input_of f1 (remove_first ''_files'' (fst kv)) of
               Inl err \<Rightarrow> Inl err
             | Inr None \<Rightarrow> Inr f1
             | Inr (Some fileInput) \<Rightarrow>
                 (case snd kv of
                    CFiles fileInfos \<Rightarrow> Inr (displayFileInfo f1 fileInput fileInfos)
                  | CTrue \<Rightarrow> Inr f1))
          else Inr f1)"

fun restoreCustomElements :: "form \<Rightarrow> cval obj \<Rightarrow> error + form" where
  "restoreCustomElements f [] = Inr f"
| "restoreCustomElements f (kv # custom) =
     (case restore_custom f kv of
        Inl err \<Rightarrow> Inl err
      | Inr f' \<Rightarrow> restoreCustomElements f' custom)"

text \<open>
  The body of the loop over \<^verbatim>\<open>state._unchecked\<close>, and the loop:
  \<^verbatim>\<open>form.querySelector(`input[type="checkbox"][name="${name}"]`)\<close> returns the first checkbox
  with the name (a name that is \<open>selector_safe\<close>), and only that one is unchecked. Setting
  \<^verbatim>\<open>checked\<close> from a script dispatches no event.
\<close>

definition force_unchecked :: "form \<Rightarrow> jsval \<Rightarrow> error + form" where
  "force_unchecked f name =
     (if selector_safe (to_string name)
      then Inr (case find (\<lambda>i. e_kind (elems f ! i) = Checkbox
                              \<and> e_name (elems f ! i) = Some (to_string name))
                       [0 ..< length (elems f)] of
                  None \<Rightarrow> f
                | Some i \<Rightarrow> f\<lparr>elems := set_checked (elems f) i False\<rparr>)
      else Inl Unmodelled)"

fun force_all :: "form \<Rightarrow> jsval list \<Rightarrow> error + form" where
  "force_all f [] = Inr f"
| "force_all f (name # names) =
     (case force_unchecked f name of
        Inl err \<Rightarrow> Inl err
      | Inr f' \<Rightarrow> force_all f' names)"

text \<open>The body of the first loop of \<^verbatim>\<open>applyFormState\<close>, and the loop.\<close>

definition restore_entry :: "form \<Rightarrow> string \<times> jsval \<Rightarrow> error + form" where
  "restore_entry f kv =
     (if startsWith_underscore (fst kv) then Inr f else restoreField f (fst kv) (snd kv))"

fun restore_entries :: "form \<Rightarrow> state \<Rightarrow> error + form" where
  "restore_entries f [] = Inr f"
| "restore_entries f (kv # st) =
     (case restore_entry f kv of
        Inl err \<Rightarrow> Inl err
      | Inr f' \<Rightarrow> restore_entries f' st)"

text \<open>
  \<^verbatim>\<open>applyFormState\<close> returns the form as it has left it and the exception it has thrown,
  if any: \<^verbatim>\<open>state._unchecked.forEach\<close> is a \<^verbatim>\<open>TypeError\<close> when \<^verbatim>\<open>_unchecked\<close> is truthy and
  not an array. \<^verbatim>\<open>Object.entries\<close> of a \<^verbatim>\<open>_custom\<close> that is a string, an array or a file
  has no key with one of the two suffixes, so only a plain object has an effect.

  When one of the loops meets a name that is not \<open>selector_safe\<close>, the result is
  \<open>Unmodelled\<close>, together with the form as it was given.
\<close>

definition applyFormState :: "form \<Rightarrow> state \<Rightarrow> form \<times> error option" where
  "applyFormState f st =
     (case restore_entries f st of
        Inl err \<Rightarrow> (f, Some err)
      | Inr f1 \<Rightarrow>
          (case (case obj_get st ''_custom'' of
                   Some (Custom custom) \<Rightarrow> restoreCustomElements f1 custom
                 | _ \<Rightarrow> Inr f1) of
             Inl err \<Rightarrow> (f, Some err)
           | Inr f2 \<Rightarrow>
               (case obj_get st ''_unchecked'' of
                  None \<Rightarrow> (f2, None)
                | Some (Arr names) \<Rightarrow>
                    (case force_all f2 names of
                       Inl err \<Rightarrow> (f, Some err)
                     | Inr f3 \<Rightarrow> (f3, None))
                | Some u \<Rightarrow> if truthy u then (f2, Some TypeError) else (f2, None))))"

text \<open>
  The \<^verbatim>\<open>change\<close> events that \<^verbatim>\<open>applyFormState\<close> dispatches, in order, each with the form as
  it is at that moment. They all come from the first loop; a \<^verbatim>\<open>TypeError\<close>, if there is
  one, comes after it.
\<close>

fun change_events :: "form \<Rightarrow> state \<Rightarrow> (nat \<times> form) list" where
  "change_events f [] = []"
| "change_events f (kv # st) =
     (case restore_entry f kv of
        Inl err \<Rightarrow> []
      | Inr f' \<Rightarrow>
          (if startsWith_underscore (fst kv) then []
           else case named (elems f) (fst kv) of
                  Inl err \<Rightarrow> []
                | Inr elements \<Rightarrow>
                    map (\<lambda>ev. (fst ev, f\<lparr>elems := snd ev\<rparr>))
                      (field_events (snd kv) (elems f) elements))
          @ change_events f' st)"

section \<open>The manager and its surroundings\<close>

datatype storage_type = LocalStorage | SessionStorage

record options =
  storagePrefix :: string
  storageType :: storage_type
  autoSave :: bool
  autoRestore :: bool
  clearOnSubmit :: bool
  debug :: bool
  excludeFields :: "string list"

text \<open>The defaults of the constructor.\<close>

definition default_options :: options where
  "default_options =
     \<lparr>storagePrefix = ''freeform_state_'', storageType = LocalStorage, autoSave = True,
      autoRestore = True, clearOnSubmit = True, debug = False,
      excludeFields = [''honeypot'', ''csrf_token'', ''CRAFT_CSRF_TOKEN'']\<rparr>"

text \<open>The object \<^verbatim>\<open>{state, timestamp, url}\<close> that \<^verbatim>\<open>saveFormState\<close> writes.\<close>

record envelope =
  env_state :: state
  env_timestamp :: int
  env_url :: string

text \<open>
  A stored text, up to what \<^verbatim>\<open>JSON.parse\<close> makes of it: \<open>Unparseable s\<close> is a text \<open>s\<close> on
  which \<^verbatim>\<open>JSON.parse\<close> throws a \<^verbatim>\<open>SyntaxError\<close> (the empty text among them), \<open>Parsed e\<close> a
  text that parses to the envelope \<open>e\<close>. Texts that parse to something else than an
  envelope are not modelled.
\<close>

datatype item = Unparseable string | Parsed envelope

text \<open>
  An entry of the registry \<^verbatim>\<open>this.forms\<close>. \<open>element\<close> is the DOM form itself: the page and
  the registry share the object, so what the user types is an update of this field.
\<close>

record formData =
  element :: form
  storageKey :: string
  lastSaved :: "int option"

text \<open>An element of the document, as far as \<^verbatim>\<open>document.querySelector\<close> looks at it.\<close>

record node =
  node_id :: "string option"
  node_name :: "string option"

text \<open>
  What a pending timer runs: the function \<^verbatim>\<open>later\<close> of a debounced save (with the closure
  variable \<^verbatim>\<open>timeout\<close> it belongs to), the delayed save after a click on a dropdown, or the
  deferred check of \<^verbatim>\<open>handleFormSubmit\<close>.
\<close>

datatype task = Later nat string | SaveState string | SubmitCheck string

record timer =
  t_id :: nat
  t_due :: int
  t_task :: task

text \<open>
  The manager (\<open>options\<close>, \<open>forms\<close>) with the browser state around it: both storages, the
  elements of the document, the clock \<^verbatim>\<open>Date.now()\<close>, \<^verbatim>\<open>window.location.href\<close>, the pending
  timers, the closure variables \<^verbatim>\<open>timeout\<close> created by the calls of \<^verbatim>\<open>debounce\<close>, the errors
  reported on the console, and the calls of \<^verbatim>\<open>storage.setItem\<close> so far (newest last).
  \<open>unmodelled\<close> is set when a run has met an input marked \<open>Unmodelled\<close>; from then on the
  state has no meaning.
\<close>

record sys =
  options :: options
  forms :: "(string \<times> formData) list"
  localStorage :: "string \<rightharpoonup> item"
  sessionStorage :: "string \<rightharpoonup> item"
  page :: "node list"
  now :: int
  href :: string
  timers :: "timer list"
  next_timer :: nat
  cells :: "nat option list"
  console :: "error list"
  setItem_calls :: "(string \<times> item) list"
  unmodelled :: bool

text \<open>\<^verbatim>\<open>this.forms.get\<close> and \<^verbatim>\<open>this.forms.set\<close> (a \<^verbatim>\<open>Map\<close> keeps the order of insertion)\<close>

definition forms_get :: "sys \<Rightarrow> string \<Rightarrow> formData option" where
  "forms_get s formId = map_of (forms s) formId"

definition forms_set :: "sys \<Rightarrow> string \<Rightarrow> formData \<Rightarrow> sys" where
  "forms_set s formId fd =
     s\<lparr>forms := (if formId \<in> set (map fst (forms s)) then replace_prop formId fd (forms s)
                  else forms s @ [(formId, fd)])\<rparr>"

text \<open>\<^verbatim>\<open>getStorage()\<close> followed by \<^verbatim>\<open>getItem\<close>, \<^verbatim>\<open>setItem\<close> or \<^verbatim>\<open>removeItem\<close>\<close>

definition getItem :: "sys \<Rightarrow> string \<Rightarrow> item option" where
  "getItem s k =
     (if storageType (options s) = SessionStorage then sessionStorage s k else localStorage s k)"

definition setItem :: "sys \<Rightarrow> string \<Rightarrow> item \<Rightarrow> sys" where
  "setItem s k v =
     (if storageType (options s) = SessionStorage
      then s\<lparr>sessionStorage := (sessionStorage s)(k \<mapsto> v), setItem_calls := setItem_calls s @ [(k, v)]\<rparr>
      else s\<lparr>localStorage := (localStorage s)(k \<mapsto> v), setItem_calls := setItem_calls s @ [(k, v)]\<rparr>)"

definition removeItem :: "sys \<Rightarrow> string \<Rightarrow> sys" where
  "removeItem s k =
     (if storageType (options s) = SessionStorage
      then s\<lparr>sessionStorage := (sessionStorage s)(k := None)\<rparr>
      else s\<lparr>localStorage := (localStorage s)(k := None)\<rparr>)"

text \<open>
  \<^verbatim>\<open>saveFormState\<close>. \<^verbatim>\<open>extractFormState\<close> is called outside the \<^verbatim>\<open>try\<close> block, so its
  exception leaves the method; nothing has been written by then.
\<close>

definition saveFormState :: "sys \<Rightarrow> string \<Rightarrow> error + sys" where
  "saveFormState s formId =
     (case forms_get s formId of
        None \<Rightarrow> Inr s
      | Some fd \<Rightarrow>
          (case extractFormState (excludeFields (options s)) (element fd) of
             Inl err \<Rightarrow> Inl err
           | Inr st \<Rightarrow>
               Inr (forms_set
                      (setItem s (storageKey fd)
                         (Parsed \<lparr>env_state = json_state st, env_timestamp = now s, env_url = href s\<rparr>))
                      formId (fd\<lparr>lastSaved := Some (now s)\<rparr>))))"

text \<open>\<^verbatim>\<open>clearFormState\<close>\<close>

definition clearFormState :: "sys \<Rightarrow> string \<Rightarrow> sys" where
  "clearFormState s formId =
     (case forms_get s formId of
        None \<Rightarrow> s
      | Some fd \<Rightarrow> removeItem s (storageKey fd))"

text \<open>
  A call of \<^verbatim>\<open>saveFormState\<close> from a listener or a timer. An exception that leaves a
  callback is reported and has no other effect.
\<close>

definition save_task :: "sys \<Rightarrow> string \<Rightarrow> sys" where
  "save_task s formId =
     (case saveFormState s formId of
        Inl err \<Rightarrow> if err = Unmodelled then s\<lparr>unmodelled := True\<rparr>
                   else s\<lparr>console := console s @ [err]\<rparr>
      | Inr s' \<Rightarrow> s')"

text \<open>\<^verbatim>\<open>setTimeout\<close> returns the id of the new timer; \<^verbatim>\<open>clearTimeout(undefined)\<close> does nothing.\<close>

definition setTimeout :: "sys \<Rightarrow> task \<Rightarrow> int \<Rightarrow> sys \<times> nat" where
  "setTimeout s task wait =
     (s\<lparr>timers := timers s @ [\<lparr>t_id = next_timer s, t_due = now s + wait, t_task = task\<rparr>],
        next_timer := Suc (next_timer s)\<rparr>,
      next_timer s)"

definition clearTimeout :: "sys \<Rightarrow> nat option \<Rightarrow> sys" where
  "clearTimeout s timeout =
     (case timeout of
        None \<Rightarrow> s
      | Some i \<Rightarrow> s\<lparr>timers := filter (\<lambda>t. t_id t \<noteq> i) (timers s)\<rparr>)"

text \<open>
  \<^verbatim>\<open>debounce(func, wait)\<close> creates a closure with a variable \<^verbatim>\<open>timeout\<close> of its own, here a
  new cell that holds \<^verbatim>\<open>undefined\<close>. \<open>func\<close> is always a save of one form, so the closure is
  the cell, the form id and the delay.
\<close>

record debounced =
  d_cell :: nat
  d_func :: string
  d_wait :: int

definition debounce :: "sys \<Rightarrow> string \<Rightarrow> int \<Rightarrow> sys \<times> debounced" where
  "debounce s formId wait =
     (s\<lparr>cells := cells s @ [None]\<rparr>, \<lparr>d_cell = length (cells s), d_func = formId, d_wait = wait\<rparr>)"

text \<open>\<^verbatim>\<open>executedFunction\<close>: \<^verbatim>\<open>clearTimeout(timeout); timeout = setTimeout(later, wait)\<close>\<close>

definition executedFunction :: "sys \<Rightarrow> debounced \<Rightarrow> sys" where
  "executedFunction s d =
     (let s1 = clearTimeout s (cells s ! d_cell d);
          (s2, i) = setTimeout s1 (Later (d_cell d) (d_func d)) (d_wait d)
      in s2\<lparr>cells := (cells s2)[d_cell d := Some i]\<rparr>)"

text \<open>
  \<^verbatim>\<open>attachFormListeners\<close> goes through the registry and puts the listeners on every form:
  one for \<^verbatim>\<open>submit\<close>, those of \<^verbatim>\<open>attachInputListeners\<close> on the controls and those of
  \<^verbatim>\<open>attachFreeformListeners\<close> on the containers.
\<close>

definition attachFormListeners :: "sys \<Rightarrow> sys" where
  "attachFormListeners s =
     s\<lparr>forms := map (\<lambda>p. (fst p, (snd p)\<lparr>element :=
                        (element (snd p))\<lparr>listeners := Suc (listeners (element (snd p)))\<rparr>\<rparr>))
                  (forms s)\<rparr>"

text \<open>
  The listener that \<^verbatim>\<open>attachInputListeners\<close> puts on a field:
  \<^verbatim>\<open>this.debounce(() => this.saveFormState(formId), 500)()\<close>.
\<close>

definition input_listener :: "sys \<Rightarrow> string \<Rightarrow> sys" where
  "input_listener s formId =
     (if autoSave (options s) then
        (case debounce s formId 500 of (s1, d) \<Rightarrow> executedFunction s1 d)
      else s)"

text \<open>
  A field-change event on a field of the form registered as \<open>formId\<close>: the user has
  changed the form, then the listeners of the field for this event run, one for each
  time they were attached.
\<close>

definition field_change :: "sys \<Rightarrow> string \<Rightarrow> (form \<Rightarrow> form) \<Rightarrow> sys" where
  "field_change s formId edit =
     (case forms_get s formId of
        None \<Rightarrow> s
      | Some fd \<Rightarrow>
          ((\<lambda>u. input_listener u formId) ^^ listeners (element fd))
            (forms_set s formId (fd\<lparr>element := edit (element fd)\<rparr>)))"

text \<open>
  The listeners that a \<^verbatim>\<open>change\<close> event finds. On its target: the listener of
  \<^verbatim>\<open>attachInputListeners\<close>, if \<^verbatim>\<open>getInputEvents\<close> lists \<^verbatim>\<open>change\<close> for the control, which it does
  for checkboxes, radio buttons and selects, and for a file input (that one is among
  the inputs only through the class \<^verbatim>\<open>freeform-input\<close>). Then, as the event bubbles, the
  listeners of \<^verbatim>\<open>attachFreeformListeners\<close> on the containers around the target, each of
  which calls \<^verbatim>\<open>saveFormState\<close> at once. The two kinds of listener work on different
  parts of the state, so they are not interleaved here.
\<close>

definition has_change_listener :: "element \<Rightarrow> bool" where
  "has_change_listener e =
     (e_kind e \<in> {Checkbox, Radio, SelectOne, SelectMultiple}
      \<or> e_kind e = FileInput \<and> e_class_input e)"

definition change_event :: "sys \<Rightarrow> string \<Rightarrow> nat \<Rightarrow> sys" where
  "change_event s formId i =
     (case forms_get s formId of
        None \<Rightarrow> s
      | Some fd \<Rightarrow>
          let target = elems (element fd) ! i;
              n = listeners (element fd);
              s1 = (if has_change_listener target then ((\<lambda>u. input_listener u formId) ^^ n) s else s)
          in ((\<lambda>u. save_task u formId) ^^ (n * e_savers target)) s1)"

text \<open>The form registered as \<open>formId\<close> has become \<open>f\<close> (the registry holds the DOM object).\<close>

definition set_element :: "sys \<Rightarrow> string \<Rightarrow> form \<Rightarrow> sys" where
  "set_element s formId f =
     (case forms_get s formId of
        None \<Rightarrow> s
      | Some fd \<Rightarrow> forms_set s formId (fd\<lparr>element := f\<rparr>))"

text \<open>
  \<^verbatim>\<open>restoreFormState\<close>. \<^verbatim>\<open>!savedData\<close> holds for a missing entry and for the empty text. The
  \<^verbatim>\<open>catch\<close> block reports the exception of \<^verbatim>\<open>JSON.parse\<close> or of \<^verbatim>\<open>applyFormState\<close> and does
  nothing else.

  While \<^verbatim>\<open>applyFormState\<close> runs, every \<^verbatim>\<open>change\<close> event it dispatches is handled before the
  next element is restored, so a listener that saves stores the form as restored up to
  that element. The listeners only read the form; the model therefore takes the events
  from \<open>change_events\<close>, handles each on the form of its moment, and puts the final form
  in place at the end.
\<close>

definition maxAge :: int where
  "maxAge = 24 * 60 * 60 * 1000"

definition restoreFormState :: "sys \<Rightarrow> string \<Rightarrow> sys" where
  "restoreFormState s formId =
     (case forms_get s formId of
        None \<Rightarrow> s
      | Some fd \<Rightarrow>
          (case getItem s (storageKey fd) of
             None \<Rightarrow> s
           | Some (Unparseable txt) \<Rightarrow>
               if txt = [] then s else s\<lparr>console := console s @ [SyntaxError]\<rparr>
           | Some (Parsed env) \<Rightarrow>
               if now s - env_timestamp env > maxAge then clearFormState s formId
               else
                 (case applyFormState (element fd) (env_state env) of
                    (f', err) \<Rightarrow>
                      if err = Some Unmodelled then s\<lparr>unmodelled := True\<rparr>
                      else
                        let s1 = foldl (\<lambda>u ev. change_event (set_element u formId (snd ev)) formId (fst ev))
                                   s (change_events (element fd) (env_state env));
                            s2 = set_element s1 formId f'
                        in (case err of
                              None \<Rightarrow> s2
                            | Some e \<Rightarrow> s2\<lparr>console := console s2 @ [e]\<rparr>))))"

text \<open>
  \<^verbatim>\<open>registerForm\<close>. A form without id and name gets a generated id; \<open>rnd\<close> stands for the
  random part \<^verbatim>\<open>Math.random().toString(36).substr(2, 9)\<close>.
\<close>

definition registerForm :: "sys \<Rightarrow> form \<Rightarrow> string \<Rightarrow> sys" where
  "registerForm s f rnd =
     (let f1 = (if form_id f = [] \<and> form_name f = []
                then f\<lparr>form_id := ''freeform_'' @ dec (nat (now s)) @ ''_'' @ rnd\<rparr> else f);
          formId = (if form_id f1 \<noteq> [] then form_id f1 else form_name f1);
          s1 = forms_set s formId
                 \<lparr>element = f1, storageKey = storagePrefix (options s) @ formId, lastSaved = None\<rparr>
      in if autoRestore (options s) then restoreFormState s1 formId else s1)"

text \<open>\<^verbatim>\<open>handleFormSubmit\<close>\<close>

definition handleFormSubmit :: "sys \<Rightarrow> string \<Rightarrow> sys" where
  "handleFormSubmit s formId =
     (if clearOnSubmit (options s) then fst (setTimeout s (SubmitCheck formId) 1000) else s)"

text \<open>
  The test of the deferred check:
  \<^verbatim>\<open>document.querySelector(`#${formId}`) || document.querySelector(`[name="${formId}"]`)\<close>.
  For a form id that is a \<open>css_ident\<close> the first selector matches the elements with that
  id, and the second, which is then \<open>selector_safe\<close> as well, those with that name. What
  the selectors mean with another id is not modelled.
\<close>

definition on_page :: "sys \<Rightarrow> string \<Rightarrow> error + bool" where
  "on_page s formId =
     (if css_ident formId
      then Inr (list_ex (\<lambda>n. node_id n = Some formId \<or> node_name n = Some formId) (page s))
      else Inl Unmodelled)"

text \<open>Running the callback of a timer.\<close>

fun run_task :: "sys \<Rightarrow> task \<Rightarrow> sys" where
  "run_task s (Later c formId) = save_task (clearTimeout s (cells s ! c)) formId"
| "run_task s (SaveState formId) = save_task s formId"
| "run_task s (SubmitCheck formId) =
     (case on_page s formId of
        Inl err \<Rightarrow> s\<lparr>unmodelled := True\<rparr>
      | Inr found \<Rightarrow> if found then s else clearFormState s formId)"

text \<open>
  The event loop: the pending timer that is due first (the older one on a tie) is
  taken off the list and run at its due time; \<open>advance t\<close> lets the time pass until
  \<open>t\<close>.
\<close>

fun earliest :: "timer list \<Rightarrow> timer option" where
  "earliest [] = None"
| "earliest (x # xs) =
     (case earliest xs of
        None \<Rightarrow> Some x
      | Some y \<Rightarrow> if t_due y < t_due x then Some y else Some x)"

definition fire :: "sys \<Rightarrow> timer \<Rightarrow> sys" where
  "fire s tm =
     run_task (s\<lparr>timers := filter (\<lambda>t. t_id t \<noteq> t_id tm) (timers s), now := max (now s) (t_due tm)\<rparr>)
       (t_task tm)"

function advance :: "int \<Rightarrow> sys \<Rightarrow> sys" where
  "advance t s =
     (case earliest (timers s) of
        None \<Rightarrow> s\<lparr>now := max (now s) t\<rparr>
      | Some tm \<Rightarrow> if t_due tm \<le> t then advance t (fire s tm) else s\<lparr>now := max (now s) t\<rparr>)"
  by pat_completeness auto
termination
proof (relation "measure (\<lambda>(t, s). length (timers s))")
  show "wf (measure (\<lambda>(t, s). length (timers s)))" by simp
next
  fix t :: int and s :: sys and tm :: timer
  assume due: "earliest (timers s) = Some tm"
  have "\<And>xs y. earliest xs = Some y \<Longrightarrow> y \<in> set xs"
  proof -
    fix xs :: "timer list" and y
    show "earliest xs = Some y \<Longrightarrow> y \<in> set xs"
      by (induction xs arbitrary: y) (auto split: option.splits if_splits)
  qed
  then have mem: "tm \<in> set (timers s)" using due by blast
  let ?s = "s\<lparr>timers := filter (\<lambda>x. t_id x \<noteq> t_id tm) (timers s), now := max (now s) (t_due tm)\<rparr>"
  have save: "\<And>u formId. timers (save_task u formId) = timers u"
    by (simp add: save_task_def saveFormState_def forms_set_def setItem_def
        split: option.splits sum.splits)
  have clear: "\<And>u c. length (timers (clearTimeout u c)) \<le> length (timers u)"
    by (simp add: clearTimeout_def split: option.splits)
  have "length (timers (run_task ?s (t_task tm))) \<le> length (timers ?s)"
  proof (cases "t_task tm")
    case (Later c formId)
    then show ?thesis using clear[of ?s "cells ?s ! c"] by (simp add: save)
  next
    case (SaveState formId)
    then show ?thesis by (simp add: save)
  next
    case (SubmitCheck formId)
    then show ?thesis
      by (simp add: clearFormState_def removeItem_def split: option.splits sum.splits)
  qed
  moreover have "length (timers ?s) < length (timers s)"
    using mem by (simp add: length_filter_less[of tm])
  ultimately show "((t, fire s tm), (t, s)) \<in> measure (\<lambda>(t, s). length (timers s))"
    by (simp add: fire_def)
qed

declare advance.simps [simp del]

section \<open>Notions used in the properties\<close>

text \<open>
  The keys of an object; the value \<^verbatim>\<open>extractFormState\<close> stores under a key after one more
  value \<open>v\<close> has arrived for it (\<open>merge\<close>) and after a list of values (\<open>collected\<close>); the
  values a list of \<^verbatim>\<open>FormData\<close> entries holds for a key; the list under \<^verbatim>\<open>_unchecked\<close> after
  the names \<open>ns\<close> have been pushed; the names of the unchecked checkboxes that are not
  excluded; the value the loop over the checked radio buttons leaves under a key (other
  than \<^verbatim>\<open>__proto__\<close>); the keys that \<^verbatim>\<open>applyFormState\<close> passes to \<^verbatim>\<open>restoreField\<close>.
\<close>

fun merge :: "jsval option \<Rightarrow> jsval \<Rightarrow> jsval" where
  "merge None v = v"
| "merge (Some cur) v =
     (if truthy cur then (case cur of Arr xs \<Rightarrow> Arr (xs @ [v]) | _ \<Rightarrow> Arr [cur, v]) else v)"

definition collected :: "jsval option \<Rightarrow> jsval list \<Rightarrow> jsval option" where
  "collected cur vs = foldl (\<lambda>c v. Some (merge c v)) cur vs"

definition values_for :: "string \<Rightarrow> (string \<times> jsval) list \<Rightarrow> jsval list" where
  "values_for k es = map snd (filter (\<lambda>kv. fst kv = k) es)"

fun pushed :: "jsval option \<Rightarrow> string list \<Rightarrow> jsval option" where
  "pushed u [] = u"
| "pushed (Some (Arr xs)) ns = Some (Arr (xs @ map Str ns))"
| "pushed u ns = Some (Arr (map Str ns))"

definition unchecked_names :: "string list \<Rightarrow> element list \<Rightarrow> string list" where
  "unchecked_names excl es =
     map name_of (filter (\<lambda>c. e_kind c = Checkbox \<and> name_of c \<notin> set excl \<and> \<not> e_checked c) es)"


definition obj_keys :: "'v obj \<Rightarrow> string set" where
  "obj_keys ob = fst ` set ob"

definition listlike :: "jsval option \<Rightarrow> bool" where
  "listlike u = (case u of None \<Rightarrow> True | Some (Arr xs) \<Rightarrow> True | _ \<Rightarrow> False)"

definition generic_keys :: "state \<Rightarrow> string set" where
  "generic_keys st = {k \<in> obj_keys st. \<not> startsWith_underscore k}"

text \<open>
  The strings that \<^verbatim>\<open>applyFormState\<close> pastes into a selector on its way through a state:
  the keys that do not start with \<^verbatim>\<open>_\<close>, the keys of \<^verbatim>\<open>_custom\<close> that end in \<^verbatim>\<open>_open\<close> or
  \<^verbatim>\<open>_files\<close>, without the suffix, and the entries of \<^verbatim>\<open>_unchecked\<close>.
\<close>

definition selector_names :: "state \<Rightarrow> string list" where
  "selector_names st =
     filter (\<lambda>k. \<not> startsWith_underscore k) (map fst st)
     @ (case obj_get st ''_custom'' of
          Some (Custom custom) \<Rightarrow>
            map (remove_first ''_open'') (filter (\<lambda>k. endsWith k ''_open'') (map fst custom))
            @ map (remove_first ''_files'') (filter (\<lambda>k. endsWith k ''_files'') (map fst custom))
        | _ \<Rightarrow> [])
     @ (case obj_get st ''_unchecked'' of
          Some (Arr names) \<Rightarrow> map to_string names
        | _ \<Rightarrow> [])"





text \<open>
  What the listeners leave in place while a snapshot is applied: the clock stands at
  \<open>t\<close>, the form is registered with the storage key \<open>key\<close>, and under that key there is
  the envelope \<open>env\<close> or one written at \<open>t\<close>.
\<close>

definition entry_kept :: "sys \<Rightarrow> string \<Rightarrow> string \<Rightarrow> envelope \<Rightarrow> int \<Rightarrow> bool" where
  "entry_kept u formId key env t =
     (now u = t
      \<and> (case forms_get u formId of None \<Rightarrow> False | Some fd \<Rightarrow> storageKey fd = key)
      \<and> (case getItem u key of
           Some (Parsed e) \<Rightarrow> e = env \<or> env_timestamp e = t
         | _ \<Rightarrow> False))"

section \<open>Sample data\<close>

text \<open>
  A manager right after construction with the given options, at time 0 on an empty
  page with empty storages, and a few controls and forms used to instantiate the
  theorems below.
\<close>

definition fresh :: "options \<Rightarrow> sys" where
  "fresh opts =
     \<lparr>options = opts, forms = [], localStorage = Map.empty, sessionStorage = Map.empty,
      page = [], now = 0, href = ''https://example.org/contact'', timers = [], next_timer = 0,
      cells = [], console = [], setItem_calls = [], unmodelled = False\<rparr>"

definition control :: "kind \<Rightarrow> string \<Rightarrow> string \<Rightarrow> bool \<Rightarrow> element" where
  "control k n v c =
     \<lparr>e_kind = k, e_name = Some n, e_value = v, e_checked = c, e_options = [], e_files = [],
      e_disabled = False, e_dropdown = None, e_uploader = None, e_parent = 0,
      e_class_input = False, e_savers = 0\<rparr>"

definition form_of :: "string \<Rightarrow> element list \<Rightarrow> form" where
  "form_of i es =
     \<lparr>form_id = i, form_name = [], elems = es, dropdowns = [], uploaders = 0, notices = [],
      listeners = 0\<rparr>"

text \<open>
  Typing into the text field at position \<open>i\<close>; a form with one e-mail field; the manager
  after \<^verbatim>\<open>init\<close> has found that form on the page: it is registered, then the listeners are
  attached.
\<close>

definition type_text :: "nat \<Rightarrow> string \<Rightarrow> form \<Rightarrow> form" where
  "type_text i v f = f\<lparr>elems := (elems f)[i := (elems f ! i)\<lparr>e_value := v\<rparr>]\<rparr>"

definition contact_form :: form where
  "contact_form = form_of ''contact'' [control Text ''email'' [] False]"

definition contact_sys :: "options \<Rightarrow> sys" where
  "contact_sys opts = attachFormListeners (registerForm (fresh opts) contact_form [])"

text \<open>
  The contact form with an envelope in storage that was written at time 0, with a stored
  text that does not parse, and after a first save; the options with
  \<^verbatim>\<open>clearOnSubmit: false\<close>.
\<close>

definition stale_sys :: sys where
  "stale_sys =
     (contact_sys default_options)
       \<lparr>localStorage := [''freeform_state_contact'' \<mapsto>
            Parsed \<lparr>env_state = [(''email'', Str ''a@b.com'')], env_timestamp = 0, env_url = []\<rparr>]\<rparr>"

definition garbled_sys :: sys where
  "garbled_sys =
     (contact_sys default_options)
       \<lparr>localStorage := [''freeform_state_contact'' \<mapsto> Unparseable ''{state:'']\<rparr>"

definition saved_sys :: "options \<Rightarrow> sys" where
  "saved_sys opts = save_task (contact_sys opts) ''contact''"

definition no_clear :: options where
  "no_clear = default_options\<lparr>clearOnSubmit := False\<rparr>"

text \<open>
  Three changes of the e-mail field, 400 ms apart, followed by a pause: the user types
  \<^verbatim>\<open>a\<close> at time 0, \<^verbatim>\<open>ab\<close> at 400 and \<^verbatim>\<open>abc\<close> at 800.
\<close>

definition typing :: "string \<Rightarrow> int \<Rightarrow> sys \<Rightarrow> sys" where
  "typing v t s = field_change (advance t s) ''contact'' (type_text 0 v)"

definition burst :: sys where
  "burst = advance 2000 (typing ''abc'' 800 (typing ''ab'' 400 (typing ''a'' 0 (contact_sys default_options))))"

text \<open>
  Abbreviations for the states of this run: the envelope with e-mail \<open>v\<close> written at \<open>t\<close>;
  the state with e-mail \<open>v\<close>, pending timers \<open>tms\<close>, \<open>n\<close> timers created so far and the
  given calls of \<^verbatim>\<open>setItem\<close>; the timer of the \<open>i\<close>-th debounced save.
\<close>

definition snap :: "string \<Rightarrow> int \<Rightarrow> string \<times> item" where
  "snap v t = (''freeform_state_contact'',
     Parsed \<lparr>env_state = [(''email'', Str v), (''_custom'', Custom [])], env_timestamp = t,
             env_url = ''https://example.org/contact''\<rparr>)"

definition shot :: "string \<Rightarrow> int option \<Rightarrow> int \<Rightarrow> timer list \<Rightarrow> nat \<Rightarrow> (string \<times> item) list \<Rightarrow> sys" where
  "shot v saved t tms n calls =
     (fresh default_options)
       \<lparr>forms := [(''contact'', \<lparr>element = (type_text 0 v contact_form)\<lparr>listeners := 1\<rparr>,
                    storageKey = ''freeform_state_contact'', lastSaved = saved\<rparr>)],
        localStorage := (\<lambda>k. if calls \<noteq> [] \<and> k = ''freeform_state_contact''
                              then Some (snd (last calls)) else None),
        now := t, timers := tms, next_timer := n, cells := map Some [0 ..< n],
        setItem_calls := calls\<rparr>"

definition later :: "nat \<Rightarrow> int \<Rightarrow> timer" where
  "later i t = \<lparr>t_id = i, t_due = t, t_task = Later i ''contact''\<rparr>"

text \<open>
  More forms: one with a honeypot field and a CSRF checkbox, three text fields with the
  same name, two text fields with the same name of which the first is empty, a group of
  two checkboxes (both checked or both unchecked), a form with a text field, a group of
  checkboxes and a group of radio buttons, and a form with a CSRF token together with a
  storage that holds a snapshot with a value for that token.
\<close>

definition guarded_form :: form where
  "guarded_form = form_of ''contact''
     [control Text ''email'' ''a@b.com'' False,
      control Text ''honeypot'' ''bot'' False,
      control Checkbox ''csrf_token'' ''1'' False]"


definition blank_first_form :: form where
  "blank_first_form = form_of ''contact''
     [control Text ''phone'' [] False, control Text ''phone'' ''456'' False]"

definition topics_form :: "bool \<Rightarrow> form" where
  "topics_form c = form_of ''news''
     [control Checkbox ''topics[]'' ''a'' c, control Checkbox ''topics[]'' ''b'' c]"


text \<open>
  A form with one checkbox inside a \<^verbatim>\<open>.checklist\<close> container, and the manager after \<^verbatim>\<open>init\<close>
  has found it, at time 5, with a snapshot in storage that was written at time 0 and has
  the box checked.
\<close>

definition checklist_form :: form where
  "checklist_form = form_of ''news'' [(control Checkbox ''agree'' ''yes'' False)\<lparr>e_savers := 1\<rparr>]"

definition checklist_sys :: sys where
  "checklist_sys =
     (attachFormListeners (registerForm (fresh default_options) checklist_form []))
       \<lparr>localStorage := [''freeform_state_news'' \<mapsto>
            Parsed \<lparr>env_state = [(''agree'', Str ''yes'')], env_timestamp = 0, env_url = []\<rparr>],
        now := 5\<rparr>"

definition token_form :: form where
  "token_form = form_of ''contact'' [control Hidden ''CRAFT_CSRF_TOKEN'' ''fresh'' False]"

definition token_sys :: sys where
  "token_sys =
     (fresh default_options)
       \<lparr>localStorage := [''freeform_state_contact'' \<mapsto>
            Parsed \<lparr>env_state = [(''CRAFT_CSRF_TOKEN'', Str ''stale''), (''_custom'', Custom [])],
                    env_timestamp = 0, env_url = []\<rparr>]\<rparr>"

section \<open>The wording of the specification, for comparison\<close>

text \<open>
  The specification describes the size shown in the notice as the quotient
  \<open>size / 1024 ^ order\<close> with two decimal places and one of the units B, KB, MB, GB.
\<close>

definition spec_units :: "string list" where
  "spec_units = [''B'', ''KB'', ''MB'', ''GB'']"

definition two_decimals :: "nat \<Rightarrow> string" where
  "two_decimals h = dec (h div 100) @ ''.'' @ [digit (h mod 100 div 10), digit (h mod 10)]"

definition formatFileSize_spec :: "nat \<Rightarrow> string" where
  "formatFileSize_spec n =
     two_decimals (toFixed2 n (1024 ^ floor_log 1024 n)) @ '' '' @ spec_units ! floor_log 1024 n"

text \<open>Removing the zeros at the end of a decimal fraction, and the point if nothing follows it.\<close>

definition drop_zeros :: "string \<Rightarrow> string" where
  "drop_zeros s =
     (case dropWhile (\<lambda>c. c = CHR ''0'') (rev s) of
        [] \<Rightarrow> []
      | c # cs \<Rightarrow> if c = CHR ''.'' then rev cs else rev (c # cs))"

section \<open>Properties of \<^verbatim>\<open>formatFileSize\<close>\<close>

lemma floor_log_bounds:
  "2 \<le> k \<Longrightarrow> 0 < n \<Longrightarrow> k ^ floor_log k n \<le> n \<and> n < k ^ Suc (floor_log k n)"
proof (induction k n rule: floor_log.induct)
  case (1 k n)
  show ?case
  proof (cases "n < k")
    case True
    with 1 show ?thesis by (simp add: floor_log.simps)
  next
    case False
    with 1 have pos: "0 < n div k" by (simp add: div_greater_zero_iff)
    from False 1 have ih: "k ^ floor_log k (n div k) \<le> n div k \<and> n div k < k ^ Suc (floor_log k (n div k))"
      using pos by simp
    have fl: "floor_log k n = Suc (floor_log k (n div k))"
      using False 1 by (subst floor_log.simps) simp
    have "k * k ^ floor_log k (n div k) \<le> k * (n div k)" using ih by simp
    also have "\<dots> \<le> n" by simp
    finally have lo: "k ^ floor_log k n \<le> n" by (simp add: fl)
    have "n div k < k ^ Suc (floor_log k (n div k))" using ih by simp
    then have "n < k ^ Suc (floor_log k (n div k)) * k"
      using 1 by (simp add: div_less_iff_less_mult)
    then have hi: "n < k ^ Suc (floor_log k n)" by (simp add: fl mult.commute)
    from lo hi show ?thesis by simp
  qed
qed

lemma floor_log_real:
  assumes "0 < n"
  shows "floor_log 1024 n = nat \<lfloor>log 1024 (real n)\<rfloor>"
proof -
  have b: "(1024::nat) ^ floor_log 1024 n \<le> n \<and> n < 1024 ^ (floor_log 1024 n + 1)"
    using floor_log_bounds[of 1024 n] assms by simp
  have "\<lfloor>log (real (1024::nat)) (real n)\<rfloor> = int (floor_log 1024 n)"
    by (rule floor_log_nat_eq_if) (use b in auto)
  then show ?thesis by simp
qed

lemma toFixed2_real:
  assumes "0 < d"
  shows "toFixed2 n d = nat \<lfloor>100 * real n / real d + 1 / 2\<rfloor>"
proof -
  have "100 * real n / real d + 1 / 2 = real (200 * n + d) / real (2 * d)"
    using assms by (simp add: field_simps)
  moreover have "\<lfloor>real (200 * n + d) / real (2 * d)\<rfloor> = int ((200 * n + d) div (2 * d))"
    by (rule floor_divide_of_nat_eq)
  ultimately show ?thesis by (simp add: toFixed2_def)
qed

lemma digit_zero_iff: "d < 10 \<Longrightarrow> digit d = CHR ''0'' \<longleftrightarrow> d = 0"
  unfolding digit_def by (auto simp: less_Suc_eq eval_nat_numeral)

lemma digit_not_dot: "d < 10 \<Longrightarrow> digit d \<noteq> CHR ''.''"
  unfolding digit_def by (auto simp: less_Suc_eq eval_nat_numeral)

lemma parseFloat_string_drop_zeros: "parseFloat_string h = drop_zeros (two_decimals h)"
proof -
  let ?a = "h mod 100 div 10" and ?b = "h mod 10"
  have a: "?a < 10" by (simp add: less_mult_imp_div_less)
  have b: "?b < 10" by simp
  have "?b = h mod 100 mod 10" by (simp add: mod_mod_cancel)
  then have c: "h mod 100 = 0 \<longleftrightarrow> ?a = 0 \<and> ?b = 0"
    using div_mult_mod_eq[of "h mod 100" 10] by auto
  have r: "rev (two_decimals h) = digit ?b # digit ?a # CHR ''.'' # rev (dec (h div 100))"
    by (simp add: two_decimals_def)
  consider "?b \<noteq> 0" | "?b = 0" "?a \<noteq> 0" | "?b = 0" "?a = 0" by blast
  then show ?thesis
  proof cases
    case 1
    then have "digit ?b \<noteq> CHR ''0''" using digit_zero_iff[OF b] by simp
    moreover have "digit ?b \<noteq> CHR ''.''" using digit_not_dot[OF b] .
    ultimately have "drop_zeros (two_decimals h) = two_decimals h"
      unfolding drop_zeros_def r by (simp add: two_decimals_def)
    moreover have "parseFloat_string h = two_decimals h"
      using 1 c by (simp add: parseFloat_string_def two_decimals_def)
    ultimately show ?thesis by simp
  next
    case 2
    then have "digit ?b = CHR ''0''" "digit ?a \<noteq> CHR ''0''"
      using digit_zero_iff[OF b] digit_zero_iff[OF a] by simp_all
    moreover have "digit ?a \<noteq> CHR ''.''" using digit_not_dot[OF a] .
    ultimately have "drop_zeros (two_decimals h) = dec (h div 100) @ ''.'' @ [digit ?a]"
      unfolding drop_zeros_def r by simp
    moreover have "parseFloat_string h = dec (h div 100) @ ''.'' @ [digit ?a]"
      using 2 c by (simp add: parseFloat_string_def)
    ultimately show ?thesis by simp
  next
    case 3
    then have "digit ?b = CHR ''0''" "digit ?a = CHR ''0''"
      using digit_zero_iff[OF b] digit_zero_iff[OF a] by simp_all
    then have "drop_zeros (two_decimals h) = dec (h div 100)"
      unfolding drop_zeros_def r by simp
    moreover have "parseFloat_string h = dec (h div 100)"
      using 3 c by (simp add: parseFloat_string_def)
    ultimately show ?thesis by simp
  qed
qed

lemma floor_log_less:
  assumes "0 < n" "n < 1024 ^ 4"
  shows "floor_log 1024 n < 4"
proof (rule ccontr)
  assume "\<not> floor_log 1024 n < 4"
  then have "(1024::nat) ^ 4 \<le> 1024 ^ floor_log 1024 n"
    by (intro power_increasing) auto
  also have "\<dots> \<le> n" using floor_log_bounds[of 1024 n] assms by simp
  finally show False using assms by simp
qed

text \<open>
  C10: the formatter is total at zero; a size of 0 bytes gives the fixed string
  \<^verbatim>\<open>0 Bytes\<close>.
\<close>

theorem formatFileSize_zero: "formatFileSize 0 = ''0 Bytes''"
  by (simp add: formatFileSize_def)

lemma floor_log_1536: "floor_log 1024 1536 = 1"
  by (simp add: floor_log.simps)

lemma dec_1: "dec (Suc 0) = ''1''"
  by (subst dec.simps) (simp add: digit_def)

text \<open>
  C9, as stated, fails: 1536 bytes are shown as \<^verbatim>\<open>1.5 KB\<close>, with one decimal place, where
  two decimal places give \<^verbatim>\<open>1.50 KB\<close>.
\<close>

theorem formatFileSize_counterexample:
  "formatFileSize 1536 = ''1.5 KB'' \<and> formatFileSize_spec 1536 = ''1.50 KB''
   \<and> formatFileSize 1536 \<noteq> formatFileSize_spec 1536"
proof -
  have h: "toFixed2 1536 1024 = 150" by (simp add: toFixed2_def)
  have 1: "formatFileSize 1536 = ''1.5 KB''"
    by (simp add: formatFileSize_def floor_log_1536 h parseFloat_string_def dec_1 digit_def sizes_def)
  have 2: "formatFileSize_spec 1536 = ''1.50 KB''"
    by (simp add: formatFileSize_spec_def floor_log_1536 h two_decimals_def dec_1 digit_def spec_units_def)
  show ?thesis unfolding 1 2 by simp
qed

text \<open>
  C9, amended: for a positive size below \<open>1024 ^ 4\<close> the notice shows the quotient
  \<open>size / 1024 ^ order\<close>, \<open>order = \<lfloor>log\<^bsub>1024\<^esub> size\<rfloor>\<close>, rounded to the nearest hundredth
  (half up) and printed without the zeros at the end of the fraction, so with at most
  two decimal places, followed by the unit Bytes, KB, MB or GB of that order.
\<close>

theorem formatFileSize_rounds:
  assumes "0 < n" and "n < 1024 ^ 4"
  shows "formatFileSize n =
           drop_zeros (two_decimals (nat \<lfloor>100 * real n / 1024 ^ nat \<lfloor>log 1024 (real n)\<rfloor> + 1 / 2\<rfloor>))
           @ '' '' @ [''Bytes'', ''KB'', ''MB'', ''GB''] ! nat \<lfloor>log 1024 (real n)\<rfloor>
         \<and> nat \<lfloor>log 1024 (real n)\<rfloor> < 4"
proof -
  let ?i = "floor_log 1024 n"
  have i: "?i = nat \<lfloor>log 1024 (real n)\<rfloor>" using assms(1) by (rule floor_log_real)
  have lt: "?i < 4" using assms by (rule floor_log_less)
  have h: "toFixed2 n (1024 ^ ?i) = nat \<lfloor>100 * real n / 1024 ^ ?i + 1 / 2\<rfloor>"
    using toFixed2_real[of "1024 ^ ?i" n] by simp
  have "formatFileSize n = parseFloat_string (toFixed2 n (1024 ^ ?i)) @ '' '' @ sizes ! ?i"
    using assms(1) lt by (simp add: formatFileSize_def sizes_def Let_def)
  then have "formatFileSize n =
      drop_zeros (two_decimals (nat \<lfloor>100 * real n / 1024 ^ ?i + 1 / 2\<rfloor>)) @ '' '' @ sizes ! ?i"
    by (simp only: parseFloat_string_drop_zeros h)
  then show ?thesis
    using lt unfolding i sizes_def by simp
qed

theorem formatFileSize_rounds_witness:
  "(0::nat) < 1500000 \<and> (1500000::nat) < 1024 ^ 4 \<and> formatFileSize 1500000 =
           drop_zeros (two_decimals (nat \<lfloor>100 * real 1500000 / 1024 ^ nat \<lfloor>log 1024 (real 1500000)\<rfloor> + 1 / 2\<rfloor>))
           @ '' '' @ [''Bytes'', ''KB'', ''MB'', ''GB''] ! nat \<lfloor>log 1024 (real 1500000)\<rfloor>"
  using formatFileSize_rounds[of 1500000] by simp

section \<open>Decoding with names that the model follows\<close>

text \<open>
  When every string that \<^verbatim>\<open>applyFormState\<close> pastes into a selector is \<open>selector_safe\<close>, each of
  its three loops runs to its end, and the result is not marked \<open>Unmodelled\<close>.
\<close>

lemma restore_entries_safe:
  "\<forall>k \<in> set (map fst st). \<not> startsWith_underscore k \<longrightarrow> selector_safe k \<Longrightarrow>
   \<exists>f'. restore_entries f st = Inr f'"
proof (induction st arbitrary: f)
  case Nil
  show ?case by simp
next
  case (Cons kv st)
  obtain f1 where 1: "restore_entry f kv = Inr f1"
    using Cons.prems by (cases "startsWith_underscore (fst kv)")
      (simp_all add: restore_entry_def restoreField_def named_def)
  have "\<forall>k \<in> set (map fst st). \<not> startsWith_underscore k \<longrightarrow> selector_safe k"
    using Cons.prems by simp
  from Cons.IH[OF this, of f1] show ?case by (simp add: 1)
qed

lemma restore_custom_safe:
  assumes "endsWith (fst kv) ''_open'' \<longrightarrow> selector_safe (remove_first ''_open'' (fst kv))"
      and "endsWith (fst kv) ''_files'' \<longrightarrow> selector_safe (remove_first ''_files'' (fst kv))"
  shows "\<exists>f'. restore_custom f kv = Inr f'"
  using assms
  by (auto simp add: restore_custom_def dropdown_of_def file_input_of_def
      split: option.splits cval.splits)

lemma restoreCustomElements_safe:
  "\<forall>k \<in> set (map fst custom).
      (endsWith k ''_open'' \<longrightarrow> selector_safe (remove_first ''_open'' k))
      \<and> (endsWith k ''_files'' \<longrightarrow> selector_safe (remove_first ''_files'' k)) \<Longrightarrow>
   \<exists>f'. restoreCustomElements f custom = Inr f'"
proof (induction custom arbitrary: f)
  case Nil
  show ?case by simp
next
  case (Cons kv custom)
  obtain f1 where 1: "restore_custom f kv = Inr f1"
    using restore_custom_safe[of kv f] Cons.prems by auto
  have "\<forall>k \<in> set (map fst custom).
      (endsWith k ''_open'' \<longrightarrow> selector_safe (remove_first ''_open'' k))
      \<and> (endsWith k ''_files'' \<longrightarrow> selector_safe (remove_first ''_files'' k))"
    using Cons.prems by simp
  from Cons.IH[OF this, of f1] show ?case by (simp add: 1)
qed

lemma force_all_safe:
  "\<forall>x \<in> set xs. selector_safe (to_string x) \<Longrightarrow> \<exists>f'. force_all f xs = Inr f'"
proof (induction xs arbitrary: f)
  case Nil
  show ?case by simp
next
  case (Cons x xs)
  obtain f1 where 1: "force_unchecked f x = Inr f1"
    using Cons.prems by (simp add: force_unchecked_def)
  have "\<forall>x \<in> set xs. selector_safe (to_string x)" using Cons.prems by simp
  from Cons.IH[OF this, of f1] show ?case by (simp add: 1)
qed

lemma selector_names_parts:
  assumes "list_all selector_safe (selector_names st)"
  shows "\<forall>k \<in> set (map fst st). \<not> startsWith_underscore k \<longrightarrow> selector_safe k"
    and "obj_get st ''_custom'' = Some (Custom custom) \<Longrightarrow>
         \<forall>k \<in> set (map fst custom).
            (endsWith k ''_open'' \<longrightarrow> selector_safe (remove_first ''_open'' k))
            \<and> (endsWith k ''_files'' \<longrightarrow> selector_safe (remove_first ''_files'' k))"
    and "obj_get st ''_unchecked'' = Some (Arr names) \<Longrightarrow>
         \<forall>x \<in> set names. selector_safe (to_string x)"
proof -
  show "\<forall>k \<in> set (map fst st). \<not> startsWith_underscore k \<longrightarrow> selector_safe k"
    using assms by (auto simp add: selector_names_def list_all_iff)
  show "\<forall>k \<in> set (map fst custom).
            (endsWith k ''_open'' \<longrightarrow> selector_safe (remove_first ''_open'' k))
            \<and> (endsWith k ''_files'' \<longrightarrow> selector_safe (remove_first ''_files'' k))"
    if "obj_get st ''_custom'' = Some (Custom custom)"
    using assms that by (auto simp add: selector_names_def list_all_iff)
  show "\<forall>x \<in> set names. selector_safe (to_string x)"
    if "obj_get st ''_unchecked'' = Some (Arr names)"
    using assms that by (auto simp add: selector_names_def list_all_iff)
qed

lemma applyFormState_safe:
  assumes "list_all selector_safe (selector_names st)"
  obtains f1 f2 where
    "restore_entries f st = Inr f1"
    "(case obj_get st ''_custom'' of
        Some (Custom custom) \<Rightarrow> restoreCustomElements f1 custom
      | _ \<Rightarrow> Inr f1) = Inr f2"
    "\<And>names. obj_get st ''_unchecked'' = Some (Arr names) \<Longrightarrow> \<exists>f3. force_all f2 names = Inr f3"
proof -
  obtain f1 where 1: "restore_entries f st = Inr f1"
    using restore_entries_safe[OF selector_names_parts(1)[OF assms], of f] by blast
  obtain f2 where 2: "(case obj_get st ''_custom'' of
        Some (Custom custom) \<Rightarrow> restoreCustomElements f1 custom
      | _ \<Rightarrow> Inr f1) = Inr f2"
  proof (cases "obj_get st ''_custom''")
    case None
    then show ?thesis using that by simp
  next
    case (Some v)
    show ?thesis
    proof (cases v)
      case (Custom custom)
      from restoreCustomElements_safe[OF selector_names_parts(2)[OF assms], of custom f1] Some Custom
      obtain f2 where "restoreCustomElements f1 custom = Inr f2" by blast
      then show ?thesis using that Some Custom by simp
    qed (use Some that in simp_all)
  qed
  have 3: "\<exists>f3. force_all f2 names = Inr f3" if "obj_get st ''_unchecked'' = Some (Arr names)" for names
    using force_all_safe[OF selector_names_parts(3)[OF assms that], of f2] .
  show ?thesis using that[OF 1 2] 3 by blast
qed

lemma applyFormState_modelled:
  assumes "list_all selector_safe (selector_names st)"
  shows "snd (applyFormState f st) \<noteq> Some Unmodelled"
proof -
  from applyFormState_safe[OF assms, of f] obtain f1 f2 where
    1: "restore_entries f st = Inr f1"
    and 2: "(case obj_get st ''_custom'' of
        Some (Custom custom) \<Rightarrow> restoreCustomElements f1 custom
      | _ \<Rightarrow> Inr f1) = Inr f2"
    and 3: "\<And>names. obj_get st ''_unchecked'' = Some (Arr names) \<Longrightarrow> \<exists>f3. force_all f2 names = Inr f3"
    by blast
  show ?thesis
  proof (cases "obj_get st ''_unchecked''")
    case None
    then show ?thesis by (simp add: applyFormState_def 1 2)
  next
    case (Some u)
    show ?thesis
    proof (cases u)
      case (Arr names)
      from 3[of names] Some Arr obtain f3 where "force_all f2 names = Inr f3" by blast
      then show ?thesis using Some Arr by (simp add: applyFormState_def 1 2)
    qed (use Some in \<open>simp_all add: applyFormState_def 1 2\<close>)
  qed
qed

section \<open>Properties of the manager\<close>

lemma map_of_replace_prop:
  "map_of (replace_prop k v xs) k' =
     (if k' = k \<and> map_of xs k \<noteq> None then Some v else map_of xs k')"
  by (induction xs) auto

lemma forms_get_forms_set:
  "forms_get (forms_set s k fd) k' = (if k' = k then Some fd else forms_get s k')"
proof (cases "k \<in> set (map fst (forms s))")
  case True
  then have "map_of (forms s) k \<noteq> None" by (simp add: map_of_eq_None_iff)
  with True show ?thesis by (simp add: forms_get_def forms_set_def map_of_replace_prop)
next
  case False
  then have "map_of (forms s) k = None" by (simp add: map_of_eq_None_iff)
  with False show ?thesis
    by (auto simp add: forms_get_def forms_set_def map_add_def split: option.splits)
qed

lemma forms_get_console [simp]: "forms_get (s\<lparr>console := c\<rparr>) k = forms_get s k"
  by (simp add: forms_get_def)

lemma getItem_console [simp]: "getItem (s\<lparr>console := c\<rparr>) k = getItem s k"
  by (simp add: getItem_def)

lemma getItem_forms_set [simp]: "getItem (forms_set s k fd) k' = getItem s k'"
  by (simp add: getItem_def forms_set_def)

lemma forms_get_unmodelled [simp]: "forms_get (s\<lparr>unmodelled := b\<rparr>) k = forms_get s k"
  by (simp add: forms_get_def)

lemma getItem_unmodelled [simp]: "getItem (s\<lparr>unmodelled := b\<rparr>) k = getItem s k"
  by (simp add: getItem_def)

lemma forms_get_setItem [simp]: "forms_get (setItem s k v) k' = forms_get s k'"
  by (simp add: forms_get_def setItem_def)

lemma getItem_setItem: "getItem (setItem s k v) k' = (if k' = k then Some v else getItem s k')"
  by (simp add: getItem_def setItem_def)

lemma now_setItem [simp]: "now (setItem s k v) = now s"
  by (simp add: setItem_def)

lemma now_forms_set [simp]: "now (forms_set s k fd) = now s"
  by (simp add: forms_set_def)

lemma input_listener_eq:
  assumes "autoSave (options s)"
  shows "input_listener s formId =
           s\<lparr>cells := cells s @ [Some (next_timer s)],
             timers := timers s @ [\<lparr>t_id = next_timer s, t_due = now s + 500,
                                    t_task = Later (length (cells s)) formId\<rparr>],
             next_timer := Suc (next_timer s)\<rparr>"
  using assms
  by (simp add: input_listener_def debounce_def executedFunction_def clearTimeout_def
      setTimeout_def)

lemma input_listener_frame:
  "forms_get (input_listener s k) k' = forms_get s k'"
  "getItem (input_listener s k) k' = getItem s k'"
  "now (input_listener s k) = now s"
proof -
  show "forms_get (input_listener s k) k' = forms_get s k'"
    by (cases "autoSave (options s)")
      (simp_all add: input_listener_eq forms_get_def, simp add: input_listener_def)
  show "getItem (input_listener s k) k' = getItem s k'"
    by (cases "autoSave (options s)")
      (simp_all add: input_listener_eq getItem_def, simp add: input_listener_def)
  show "now (input_listener s k) = now s"
    by (cases "autoSave (options s)")
      (simp_all add: input_listener_eq, simp add: input_listener_def)
qed

lemma contact_sys_eval:
  "contact_sys opts = (fresh opts)\<lparr>forms := [(''contact'',
      \<lparr>element = contact_form\<lparr>listeners := 1\<rparr>, storageKey = storagePrefix opts @ ''contact'',
       lastSaved = None\<rparr>)]\<rparr>"
  by (simp add: contact_sys_def attachFormListeners_def registerForm_def contact_form_def
      form_of_def fresh_def forms_set_def restoreFormState_def forms_get_def getItem_def Let_def)

subsection \<open>What the listeners leave in place during a restore\<close>

lemma funpow_invariant:
  assumes "\<And>u. P u \<Longrightarrow> P (g u)" and "P u"
  shows "P ((g ^^ n) u)"
  by (induction n) (simp_all add: assms)

lemma entry_kept_input_listener:
  "entry_kept u formId key env t \<Longrightarrow> entry_kept (input_listener u k) formId key env t"
  by (simp add: entry_kept_def input_listener_frame)

lemma entry_kept_save_task:
  assumes "entry_kept u formId key env t"
  shows "entry_kept (save_task u formId) formId key env t"
proof -
  from assms obtain fd where fd: "forms_get u formId = Some fd" "storageKey fd = key"
    by (auto simp add: entry_kept_def split: option.splits)
  show ?thesis
  proof (cases "extractFormState (excludeFields (options u)) (element fd)")
    case (Inl err)
    then have "save_task u formId
        = (if err = Unmodelled then u\<lparr>unmodelled := True\<rparr> else u\<lparr>console := console u @ [err]\<rparr>)"
      by (simp add: save_task_def saveFormState_def fd)
    then show ?thesis using assms by (simp add: entry_kept_def)
  next
    case (Inr st)
    then have "save_task u formId
        = forms_set (setItem u key
              (Parsed \<lparr>env_state = json_state st, env_timestamp = now u, env_url = href u\<rparr>))
            formId (fd\<lparr>lastSaved := Some (now u)\<rparr>)"
      by (simp add: save_task_def saveFormState_def fd)
    then show ?thesis
      using assms fd by (simp add: entry_kept_def forms_get_forms_set getItem_setItem)
  qed
qed

lemma element_save_task:
  "map_option element (forms_get (save_task u formId) k) = map_option element (forms_get u k)"
  by (auto simp add: save_task_def saveFormState_def forms_get_forms_set
      split: option.splits sum.splits)

lemma entry_kept_set_element:
  "entry_kept u formId key env t \<Longrightarrow> entry_kept (set_element u formId f) formId key env t"
  by (auto simp add: entry_kept_def set_element_def forms_get_forms_set split: option.splits)

lemma element_set_element:
  "entry_kept u formId key env t \<Longrightarrow>
   map_option element (forms_get (set_element u formId f) formId) = Some f"
  by (auto simp add: entry_kept_def set_element_def forms_get_forms_set split: option.splits)

lemma entry_kept_change_event:
  assumes "entry_kept u formId key env t"
  shows "entry_kept (change_event u formId i) formId key env t"
proof -
  from assms obtain fd where fd: "forms_get u formId = Some fd"
    by (auto simp add: entry_kept_def split: option.splits)
  let ?n = "listeners (element fd)"
  let ?e = "elems (element fd) ! i"
  let ?u1 = "if has_change_listener ?e then ((\<lambda>u. input_listener u formId) ^^ ?n) u else u"
  have 1: "entry_kept ?u1 formId key env t"
    using funpow_invariant[of "\<lambda>u. entry_kept u formId key env t" "\<lambda>u. input_listener u formId" u ?n]
      entry_kept_input_listener assms
    by simp
  have "entry_kept (((\<lambda>u. save_task u formId) ^^ (?n * e_savers ?e)) ?u1) formId key env t"
    by (rule funpow_invariant[of "\<lambda>u. entry_kept u formId key env t"])
      (simp_all only: entry_kept_save_task 1)
  then show ?thesis by (simp add: change_event_def fd Let_def)
qed

lemma entry_kept_events:
  "entry_kept u formId key env t \<Longrightarrow>
   entry_kept (foldl (\<lambda>u ev. change_event (set_element u formId (snd ev)) formId (fst ev)) u evs)
     formId key env t"
  by (induction evs arbitrary: u) (simp_all add: entry_kept_change_event entry_kept_set_element)


lemma restoreFormState_applies:
  assumes "forms_get s formId = Some fd"
      and "getItem s (storageKey fd) = Some (Parsed env)"
      and "\<not> maxAge < now s - env_timestamp env"
      and safe: "list_all selector_safe (selector_names (env_state env))"
  shows "map_option element (forms_get (restoreFormState s formId) formId)
                = Some (fst (applyFormState (element fd) (env_state env)))
      \<and> (\<exists>e. getItem (restoreFormState s formId) (storageKey fd) = Some (Parsed e)
                    \<and> (e = env \<or> env_timestamp e = now s))"
proof -
  obtain f' err where ap: "applyFormState (element fd) (env_state env) = (f', err)"
    by (cases "applyFormState (element fd) (env_state env)")
  have ne: "err \<noteq> Some Unmodelled"
    using applyFormState_modelled[OF safe, of "element fd"] ap by simp
  let ?s1 = "foldl (\<lambda>u ev. change_event (set_element u formId (snd ev)) formId (fst ev))
               s (change_events (element fd) (env_state env))"
  let ?s2 = "set_element ?s1 formId f'"
  have "entry_kept s formId (storageKey fd) env (now s)"
    using assms by (simp add: entry_kept_def)
  then have k1: "entry_kept ?s1 formId (storageKey fd) env (now s)"
    by (rule entry_kept_events)
  then have k2: "entry_kept ?s2 formId (storageKey fd) env (now s)"
    by (rule entry_kept_set_element)
  have el: "map_option element (forms_get ?s2 formId) = Some f'"
    using k1 by (rule element_set_element)
  have r: "restoreFormState s formId
      = (case err of None \<Rightarrow> ?s2 | Some e \<Rightarrow> ?s2\<lparr>console := console ?s2 @ [e]\<rparr>)"
    using assms(1-3) ne by (simp add: restoreFormState_def ap Let_def)
  have g: "forms_get (restoreFormState s formId) formId = forms_get ?s2 formId"
    "getItem (restoreFormState s formId) (storageKey fd) = getItem ?s2 (storageKey fd)"
    unfolding r by (simp_all split: option.splits)
  have "\<exists>e. getItem ?s2 (storageKey fd) = Some (Parsed e) \<and> (e = env \<or> env_timestamp e = now s)"
    using k2 by (auto simp add: entry_kept_def split: option.splits item.splits)
  then show ?thesis using el by (simp add: g ap)
qed

text \<open>
  C3: a restore that finds an envelope older than 24 hours applies nothing to the form
  and removes the entry from storage; no timer is set and nothing is written. An
  envelope with \<open>now - timestamp \<le> 24h\<close> is used: its snapshot (with names that the model
  follows) is applied to the form, and the entry stays usable, as it was or written anew
  at the time of the restore by a listener that the restore has woken.
\<close>

theorem restoreFormState_staleness:
  assumes "forms_get s formId = Some fd"
      and "getItem s (storageKey fd) = Some (Parsed env)"
  shows "if 24 * 60 * 60 * 1000 < now s - env_timestamp env
         then forms (restoreFormState s formId) = forms s
            \<and> getItem (restoreFormState s formId) (storageKey fd) = None
            \<and> timers (restoreFormState s formId) = timers s
            \<and> setItem_calls (restoreFormState s formId) = setItem_calls s
         else list_all selector_safe (selector_names (env_state env)) \<longrightarrow>
              map_option element (forms_get (restoreFormState s formId) formId)
                = Some (fst (applyFormState (element fd) (env_state env)))
            \<and> (\<exists>e. getItem (restoreFormState s formId) (storageKey fd) = Some (Parsed e)
                    \<and> (e = env \<or> env_timestamp e = now s))"
proof (cases "24 * 60 * 60 * 1000 < now s - env_timestamp env")
  case True
  then have "restoreFormState s formId = removeItem s (storageKey fd)"
    using assms by (simp add: restoreFormState_def clearFormState_def maxAge_def)
  then show ?thesis using True by (simp add: removeItem_def getItem_def)
next
  case False
  then have "\<not> maxAge < now s - env_timestamp env" by (simp add: maxAge_def)
  from restoreFormState_applies[OF assms this] show ?thesis using False by simp
qed

theorem restoreFormState_staleness_witness:
  "forms (restoreFormState (stale_sys\<lparr>now := 86400001\<rparr>) ''contact'')
       = forms (stale_sys\<lparr>now := 86400001\<rparr>)
   \<and> getItem (restoreFormState (stale_sys\<lparr>now := 86400001\<rparr>) ''contact'') ''freeform_state_contact''
       = None
   \<and> map_option (\<lambda>fd. map e_value (elems (element fd)))
        (forms_get (restoreFormState (stale_sys\<lparr>now := 86400000\<rparr>) ''contact'') ''contact'')
       = Some [''a@b.com'']
   \<and> getItem (restoreFormState (stale_sys\<lparr>now := 86400000\<rparr>) ''contact'') ''freeform_state_contact''
       \<noteq> None"
proof -
  let ?fd = "\<lparr>element = contact_form\<lparr>listeners := 1\<rparr>, storageKey = ''freeform_state_contact'',
              lastSaved = None\<rparr>"
  let ?env = "\<lparr>env_state = [(''email'', Str ''a@b.com'')], env_timestamp = 0, env_url = []\<rparr>"
  have reg: "\<And>t. forms_get (stale_sys\<lparr>now := t\<rparr>) ''contact'' = Some ?fd"
    by (simp add: stale_sys_def contact_sys_eval forms_get_def default_options_def)
  have st: "\<And>t. getItem (stale_sys\<lparr>now := t\<rparr>) (storageKey ?fd) = Some (Parsed ?env)"
    by (simp add: stale_sys_def contact_sys_eval getItem_def default_options_def fresh_def)
  have safe: "list_all selector_safe (selector_names (env_state ?env))"
    by (simp add: selector_names_def selector_safe_def obj_get_def)
  have ap: "map e_value (elems (fst (applyFormState (element ?fd) (env_state ?env)))) = [''a@b.com'']"
    by (simp add: applyFormState_def restore_entry_def restoreField_def named_def selector_safe_def
        restore_element_def obj_get_def contact_form_def form_of_def control_def)
  have old: "forms (restoreFormState (stale_sys\<lparr>now := 86400001\<rparr>) ''contact'')
       = forms (stale_sys\<lparr>now := 86400001\<rparr>)
     \<and> getItem (restoreFormState (stale_sys\<lparr>now := 86400001\<rparr>) ''contact'') ''freeform_state_contact''
       = None"
    using restoreFormState_staleness[OF reg st, of 86400001] by simp
  have new: "map_option element (forms_get (restoreFormState (stale_sys\<lparr>now := 86400000\<rparr>) ''contact'') ''contact'')
         = Some (fst (applyFormState (element ?fd) (env_state ?env)))
     \<and> getItem (restoreFormState (stale_sys\<lparr>now := 86400000\<rparr>) ''contact'') ''freeform_state_contact''
       \<noteq> None"
    using restoreFormState_staleness[OF reg st, of 86400000] safe by auto
  from new have "map_option (\<lambda>fd. map e_value (elems (element fd)))
        (forms_get (restoreFormState (stale_sys\<lparr>now := 86400000\<rparr>) ''contact'') ''contact'')
       = Some [''a@b.com'']"
    using ap by (cases "forms_get (restoreFormState (stale_sys\<lparr>now := 86400000\<rparr>) ''contact'') ''contact''") auto
  with old new show ?thesis by blast
qed

text \<open>
  C7, as stated, fails: after a restore that met a stored text which does not parse,
  the text is still in storage.
\<close>

theorem restoreFormState_malformed_counterexample:
  "getItem garbled_sys ''freeform_state_contact'' = Some (Unparseable ''{state:'')
   \<and> getItem (restoreFormState garbled_sys ''contact'') ''freeform_state_contact'' \<noteq> None"
  by (simp add: garbled_sys_def contact_sys_eval restoreFormState_def forms_get_def getItem_def
      default_options_def fresh_def)

text \<open>
  C7, amended: a restore that meets a stored text which does not parse applies nothing
  to the form, leaves both storages as they are, and reports the error (unless the text
  is empty, which counts as no entry).
\<close>

theorem restoreFormState_malformed:
  assumes "forms_get s formId = Some fd"
      and "getItem s (storageKey fd) = Some (Unparseable txt)"
  shows "forms (restoreFormState s formId) = forms s
       \<and> localStorage (restoreFormState s formId) = localStorage s
       \<and> sessionStorage (restoreFormState s formId) = sessionStorage s
       \<and> console (restoreFormState s formId) = (if txt = [] then console s else console s @ [SyntaxError])"
  using assms by (simp add: restoreFormState_def)

theorem restoreFormState_malformed_witness:
  "forms (restoreFormState garbled_sys ''contact'') = forms garbled_sys
       \<and> localStorage (restoreFormState garbled_sys ''contact'') = localStorage garbled_sys
       \<and> sessionStorage (restoreFormState garbled_sys ''contact'') = sessionStorage garbled_sys
       \<and> console (restoreFormState garbled_sys ''contact'') = console garbled_sys @ [SyntaxError]"
proof -
  let ?fd = "\<lparr>element = contact_form\<lparr>listeners := 1\<rparr>, storageKey = ''freeform_state_contact'',
              lastSaved = None\<rparr>"
  have reg: "forms_get garbled_sys ''contact'' = Some ?fd"
    by (simp add: garbled_sys_def contact_sys_eval forms_get_def default_options_def)
  have st: "getItem garbled_sys (storageKey ?fd) = Some (Unparseable ''{state:'')"
    by (simp add: garbled_sys_def contact_sys_eval getItem_def default_options_def fresh_def)
  show ?thesis using restoreFormState_malformed[OF reg st] by simp
qed

text \<open>
  C8, amended: with \<^verbatim>\<open>clearOnSubmit\<close> switched on, a submission only schedules the check,
  1000 ms later, and changes nothing else; with \<^verbatim>\<open>clearOnSubmit\<close> switched off it changes
  nothing at all, so no check is scheduled. When the check of a form whose id is a plain
  identifier runs and finds an element with the id or the name of the form on the page,
  the storages stay as they are; when it finds none and the form is still registered,
  the entry of the form is removed and no other entry changes.
\<close>

theorem handleFormSubmit_deferred_check:
  "handleFormSubmit s formId =
     (if clearOnSubmit (options s)
      then s\<lparr>timers := timers s @ [\<lparr>t_id = next_timer s, t_due = now s + 1000, t_task = SubmitCheck formId\<rparr>],
             next_timer := Suc (next_timer s)\<rparr>
      else s)
   \<and> (t_task tm = SubmitCheck formId \<and> css_ident formId \<and> on_page u formId = Inr True \<longrightarrow>
        localStorage (fire u tm) = localStorage u \<and> sessionStorage (fire u tm) = sessionStorage u)
   \<and> (t_task tm = SubmitCheck formId \<and> css_ident formId \<and> on_page u formId = Inr False
        \<and> forms_get u formId = Some fd \<longrightarrow>
        getItem (fire u tm) (storageKey fd) = None
        \<and> (\<forall>k. k \<noteq> storageKey fd \<longrightarrow> getItem (fire u tm) k = getItem u k))"
proof (intro conjI impI)
  show "handleFormSubmit s formId =
     (if clearOnSubmit (options s)
      then s\<lparr>timers := timers s @ [\<lparr>t_id = next_timer s, t_due = now s + 1000, t_task = SubmitCheck formId\<rparr>],
             next_timer := Suc (next_timer s)\<rparr>
      else s)"
    by (simp add: handleFormSubmit_def setTimeout_def)
next
  let ?u = "u\<lparr>timers := filter (\<lambda>t. t_id t \<noteq> t_id tm) (timers u), now := max (now u) (t_due tm)\<rparr>"
  have op: "on_page ?u formId = on_page u formId" by (simp add: on_page_def)
  {
    assume "t_task tm = SubmitCheck formId \<and> css_ident formId \<and> on_page u formId = Inr True"
    then have "fire u tm = ?u" by (simp add: fire_def op)
    then show "localStorage (fire u tm) = localStorage u"
      and "sessionStorage (fire u tm) = sessionStorage u"
      by simp_all
  }
  {
    assume "t_task tm = SubmitCheck formId \<and> css_ident formId \<and> on_page u formId = Inr False
        \<and> forms_get u formId = Some fd"
    then have "fire u tm = removeItem ?u (storageKey fd)"
      by (simp add: fire_def op clearFormState_def forms_get_def)
    then show "getItem (fire u tm) (storageKey fd) = None"
      and "\<forall>k. k \<noteq> storageKey fd \<longrightarrow> getItem (fire u tm) k = getItem u k"
      by (simp_all add: removeItem_def getItem_def)
  }
qed

lemmas codec_defs =
  extractFormState_def FormData_def entries_of_def name_of_def accumulate_def obj_get_def
  obj_set_def array_index_def is_digit_def track_unchecked_def record_radio_def
  extractCustomElements_def custom_open_def custom_files_def json_state_def inherited_def
  obj_read_def

lemma extract_contact:
  "extractFormState excl ((type_text 0 v contact_form)\<lparr>listeners := n\<rparr>) =
     Inr (if ''email'' \<in> set excl then [(''_custom'', Custom [])]
          else [(''email'', Str v), (''_custom'', Custom [])])"
  by (simp add: codec_defs type_text_def contact_form_def form_of_def control_def)

lemma type_text_same: "type_text 0 [] contact_form = contact_form"
  by (simp add: type_text_def contact_form_def form_of_def control_def)

lemma saved_sys_eval:
  assumes "storageType opts = LocalStorage" "''email'' \<notin> set (excludeFields opts)"
  shows "saved_sys opts =
    (fresh opts)\<lparr>forms := [(''contact'',
        \<lparr>element = contact_form\<lparr>listeners := 1\<rparr>, storageKey = storagePrefix opts @ ''contact'',
         lastSaved = Some 0\<rparr>)],
      localStorage := [storagePrefix opts @ ''contact'' \<mapsto>
        Parsed \<lparr>env_state = [(''email'', Str []), (''_custom'', Custom [])], env_timestamp = 0,
                env_url = ''https://example.org/contact''\<rparr>],
      setItem_calls := [(storagePrefix opts @ ''contact'',
        Parsed \<lparr>env_state = [(''email'', Str []), (''_custom'', Custom [])], env_timestamp = 0,
                env_url = ''https://example.org/contact''\<rparr>)]\<rparr>"
  using assms extract_contact[where excl = "excludeFields opts" and v = "[]" and n = 1]
  by (simp add: saved_sys_def save_task_def saveFormState_def contact_sys_eval forms_get_def
      type_text_same setItem_def forms_set_def fresh_def json_state_def)

lemma advance_fire:
  "earliest (timers s) = Some tm \<Longrightarrow> t_due tm \<le> t \<Longrightarrow> advance t s = advance t (fire s tm)"
  by (subst advance.simps) simp

lemma advance_idle:
  "earliest (timers s) = None \<Longrightarrow> advance t s = s\<lparr>now := max (now s) t\<rparr>"
  by (subst advance.simps) simp

lemma advance_wait:
  "earliest (timers s) = Some tm \<Longrightarrow> t < t_due tm \<Longrightarrow> advance t s = s\<lparr>now := max (now s) t\<rparr>"
  by (subst advance.simps) simp

text \<open>
  C8, as stated, fails: with \<^verbatim>\<open>clearOnSubmit: false\<close> no check is scheduled, and the entry of
  a form that has left the page is still in storage 1000 ms after the submission.
\<close>

theorem handleFormSubmit_counterexample:
  "on_page (saved_sys no_clear) ''contact'' = Inr False
   \<and> getItem (saved_sys no_clear) ''freeform_state_contact'' \<noteq> None
   \<and> getItem (advance 1000 (handleFormSubmit (saved_sys no_clear) ''contact'')) ''freeform_state_contact''
       \<noteq> None"
proof -
  have e: "saved_sys no_clear = (fresh no_clear)\<lparr>forms := [(''contact'',
        \<lparr>element = contact_form\<lparr>listeners := 1\<rparr>, storageKey = storagePrefix no_clear @ ''contact'',
         lastSaved = Some 0\<rparr>)],
      localStorage := [storagePrefix no_clear @ ''contact'' \<mapsto>
        Parsed \<lparr>env_state = [(''email'', Str []), (''_custom'', Custom [])], env_timestamp = 0,
                env_url = ''https://example.org/contact''\<rparr>],
      setItem_calls := [(storagePrefix no_clear @ ''contact'',
        Parsed \<lparr>env_state = [(''email'', Str []), (''_custom'', Custom [])], env_timestamp = 0,
                env_url = ''https://example.org/contact''\<rparr>)]\<rparr>"
    by (rule saved_sys_eval) (simp_all add: no_clear_def default_options_def)
  have o: "options (saved_sys no_clear) = no_clear" by (simp add: e fresh_def)
  have h: "handleFormSubmit (saved_sys no_clear) ''contact'' = saved_sys no_clear"
    by (simp add: handleFormSubmit_def o) (simp add: no_clear_def)
  have t: "timers (saved_sys no_clear) = []" by (simp add: e fresh_def)
  have a: "advance 1000 (saved_sys no_clear) = (saved_sys no_clear)\<lparr>now := 1000\<rparr>"
    using advance_idle[of "saved_sys no_clear" 1000] t by (simp add: e fresh_def)
  have k: "storagePrefix no_clear = ''freeform_state_''" "storageType no_clear = LocalStorage"
    by (simp_all add: no_clear_def default_options_def)
  show ?thesis
    unfolding h a
    by (simp add: e on_page_def css_ident_def name_start_def is_digit_def getItem_def fresh_def k)
qed

theorem handleFormSubmit_deferred_check_witness:
  "clearOnSubmit (options (saved_sys default_options))
   \<and> css_ident ''contact''
   \<and> timers (handleFormSubmit (saved_sys default_options) ''contact'')
       = [\<lparr>t_id = 0, t_due = 1000, t_task = SubmitCheck ''contact''\<rparr>]
   \<and> getItem (handleFormSubmit (saved_sys default_options) ''contact'') ''freeform_state_contact''
       \<noteq> None
   \<and> localStorage (fire ((handleFormSubmit (saved_sys default_options) ''contact'')
                          \<lparr>page := [\<lparr>node_id = Some ''contact'', node_name = None\<rparr>]\<rparr>)
                       \<lparr>t_id = 0, t_due = 1000, t_task = SubmitCheck ''contact''\<rparr>)
       = localStorage (saved_sys default_options)
   \<and> getItem (fire (handleFormSubmit (saved_sys default_options) ''contact'')
                 \<lparr>t_id = 0, t_due = 1000, t_task = SubmitCheck ''contact''\<rparr>)
         ''freeform_state_contact'' = None"
proof -
  let ?s = "saved_sys default_options"
  let ?tm = "\<lparr>t_id = 0, t_due = 1000, t_task = SubmitCheck ''contact''\<rparr>"
  let ?fd = "\<lparr>element = contact_form\<lparr>listeners := 1\<rparr>, storageKey = ''freeform_state_contact'',
              lastSaved = Some 0\<rparr>"
  let ?u = "handleFormSubmit ?s ''contact''"
  let ?p = "?u\<lparr>page := [\<lparr>node_id = Some ''contact'', node_name = None\<rparr>]\<rparr>"
  have e: "?s = (fresh default_options)\<lparr>forms := [(''contact'',
        \<lparr>element = contact_form\<lparr>listeners := 1\<rparr>,
         storageKey = storagePrefix default_options @ ''contact'', lastSaved = Some 0\<rparr>)],
      localStorage := [storagePrefix default_options @ ''contact'' \<mapsto>
        Parsed \<lparr>env_state = [(''email'', Str []), (''_custom'', Custom [])], env_timestamp = 0,
                env_url = ''https://example.org/contact''\<rparr>],
      setItem_calls := [(storagePrefix default_options @ ''contact'',
        Parsed \<lparr>env_state = [(''email'', Str []), (''_custom'', Custom [])], env_timestamp = 0,
                env_url = ''https://example.org/contact''\<rparr>)]\<rparr>"
    by (rule saved_sys_eval) (simp_all add: default_options_def)
  have k: "storagePrefix default_options = ''freeform_state_''"
      "storageType default_options = LocalStorage" "clearOnSubmit default_options"
    by (simp_all add: default_options_def)
  have c: "clearOnSubmit (options ?s)" by (simp add: e fresh_def k)
  have i: "css_ident ''contact''"
    by (simp add: css_ident_def name_start_def is_digit_def)
  note T = handleFormSubmit_deferred_check[where s = ?s and formId = "''contact''" and tm = ?tm]
  have u: "?u = ?s\<lparr>timers := [?tm], next_timer := Suc 0\<rparr>"
    using T[THEN conjunct1] c by (simp add: e fresh_def)
  have p1: "on_page ?p ''contact'' = Inr True"
    by (simp add: on_page_def i)
  have p2: "on_page ?u ''contact'' = Inr False"
    by (simp add: u on_page_def i) (simp add: e fresh_def)
  have r: "forms_get ?u ''contact'' = Some ?fd"
    by (simp add: u forms_get_def) (simp add: e fresh_def k)
  have g: "getItem ?u ''freeform_state_contact'' \<noteq> None"
    by (simp add: u getItem_def) (simp add: e fresh_def k)
  have A: "localStorage (fire ?p ?tm) = localStorage ?p"
    using T[THEN conjunct2, THEN conjunct1, of ?p] p1 i by simp
  have B: "getItem (fire ?u ?tm) ''freeform_state_contact'' = None"
    using T[THEN conjunct2, THEN conjunct2, of ?u ?fd] p2 r i by simp
  have l: "localStorage ?p = localStorage ?s"
    by (simp add: u)
  have t: "timers ?u = [?tm]" by (simp add: u)
  show ?thesis
    using c i t g A[unfolded l] B by blast
qed

lemma shot_0: "contact_sys default_options = shot [] None 0 [] 0 []"
  by (simp add: contact_sys_eval shot_def type_text_same default_options_def fresh_def)

lemma type_text_twice:
  "type_text 0 v ((type_text 0 w contact_form)\<lparr>listeners := n\<rparr>)
     = (type_text 0 v contact_form)\<lparr>listeners := n\<rparr>"
  by (simp add: type_text_def contact_form_def form_of_def control_def)

lemma forms_get_shot:
  "forms_get (shot w saved t tms n calls) ''contact'' =
     Some \<lparr>element = (type_text 0 w contact_form)\<lparr>listeners := 1\<rparr>,
           storageKey = ''freeform_state_contact'', lastSaved = saved\<rparr>"
  by (simp add: shot_def forms_get_def)

lemma forms_set_shot:
  "forms_set (shot w saved t tms n calls) ''contact''
     \<lparr>element = f, storageKey = ''freeform_state_contact'', lastSaved = saved'\<rparr>
   = (shot w saved t tms n calls)\<lparr>forms := [(''contact'',
        \<lparr>element = f, storageKey = ''freeform_state_contact'', lastSaved = saved'\<rparr>)]\<rparr>"
  by (simp add: shot_def forms_set_def)

lemma input_listener_shot:
  "input_listener (shot v saved t tms n calls) ''contact''
     = shot v saved t (tms @ [later n (t + 500)]) (Suc n) calls"
proof -
  have a: "autoSave (options (shot v saved t tms n calls))"
    by (simp add: shot_def fresh_def default_options_def)
  show ?thesis
    unfolding input_listener_eq[OF a] by (simp add: shot_def later_def)
qed

lemma field_change_shot:
  "field_change (shot w saved t tms n calls) ''contact'' (type_text 0 v)
     = shot v saved t (tms @ [later n (t + 500)]) (Suc n) calls"
proof -
  have "forms_set (shot w saved t tms n calls) ''contact''
     \<lparr>element = (type_text 0 v contact_form)\<lparr>listeners := 1\<rparr>,
      storageKey = ''freeform_state_contact'', lastSaved = saved\<rparr>
     = shot v saved t tms n calls"
    unfolding forms_set_shot by (simp add: shot_def)
  then show ?thesis
    by (simp add: field_change_def forms_get_shot type_text_twice input_listener_shot)
qed

lemma fire_shot:
  assumes "i < n"
  shows "fire (shot v saved t tms n calls) (later i d)
     = shot v (Some (max t d)) (max t d) (filter (\<lambda>x. t_id x \<noteq> i) tms) n (calls @ [snap v (max t d)])"
proof -
  let ?u = "shot v saved (max t d) (filter (\<lambda>x. t_id x \<noteq> i) tms) n calls"
  have 1: "(shot v saved t tms n calls)\<lparr>timers := filter (\<lambda>x. t_id x \<noteq> t_id (later i d)) (timers (shot v saved t tms n calls)),
       now := max (now (shot v saved t tms n calls)) (t_due (later i d))\<rparr> = ?u"
    by (simp add: shot_def later_def)
  have 2: "clearTimeout ?u (cells ?u ! i) = ?u"
    using assms by (simp add: clearTimeout_def shot_def)
  have 3: "save_task ?u ''contact''
     = shot v (Some (max t d)) (max t d) (filter (\<lambda>x. t_id x \<noteq> i) tms) n (calls @ [snap v (max t d)])"
    using extract_contact[where excl = "excludeFields default_options" and v = v and n = 1]
    apply (simp add: save_task_def saveFormState_def forms_get_shot)
    apply (simp add: shot_def fresh_def default_options_def setItem_def forms_set_def snap_def json_state_def)
    apply (rule ext)
    apply simp
    done
  show ?thesis
    unfolding fire_def 1 by (simp add: later_def 2 3)
qed

lemma timers_shot [simp]: "timers (shot v saved t tms n calls) = tms"
  by (simp add: shot_def fresh_def)

lemma now_shot: "(shot v saved t0 tms n calls)\<lparr>now := max (now (shot v saved t0 tms n calls)) t\<rparr>
    = shot v saved (max t0 t) tms n calls"
  by (simp add: shot_def fresh_def)

lemma advance_shot_idle:
  "advance t (shot v saved t0 [] n calls) = shot v saved (max t0 t) [] n calls"
  by (simp add: advance_idle now_shot)

lemma advance_shot_wait:
  "earliest tms = Some tm \<Longrightarrow> t < t_due tm \<Longrightarrow>
   advance t (shot v saved t0 tms n calls) = shot v saved (max t0 t) tms n calls"
  using advance_wait[of "shot v saved t0 tms n calls" tm t] by (simp add: now_shot)

lemma later_sel [simp]: "t_id (later i d) = i" "t_due (later i d) = d"
  by (simp_all add: later_def)

lemma advance_shot_fire:
  "earliest tms = Some (later i d) \<Longrightarrow> d \<le> t \<Longrightarrow> i < n \<Longrightarrow>
   advance t (shot v saved t0 tms n calls)
     = advance t (shot v (Some (max t0 d)) (max t0 d) (filter (\<lambda>x. t_id x \<noteq> i) tms) n
                    (calls @ [snap v (max t0 d)]))"
  using advance_fire[of "shot v saved t0 tms n calls" "later i d" t]
  by (simp add: fire_shot)

lemma burst_eval:
  "burst = shot ''abc'' (Some 1300) 2000 [] 3 [snap ''ab'' 500, snap ''abc'' 900, snap ''abc'' 1300]"
proof -
  have 1: "typing ''a'' 0 (contact_sys default_options) = shot ''a'' None 0 [later 0 500] 1 []"
    by (simp add: typing_def shot_0 advance_shot_idle field_change_shot)
  have 2: "typing ''ab'' 400 (shot ''a'' None 0 [later 0 500] 1 [])
             = shot ''ab'' None 400 [later 0 500, later 1 900] 2 []"
    by (simp add: typing_def advance_shot_wait[of _ "later 0 500"] field_change_shot numeral_2_eq_2)
  have 3: "typing ''abc'' 800 (shot ''ab'' None 400 [later 0 500, later 1 900] 2 [])
             = shot ''abc'' (Some 500) 800 [later 1 900, later 2 1300] 3 [snap ''ab'' 500]"
    by (simp add: typing_def advance_shot_fire[of _ 0 500] advance_shot_wait[of _ "later 1 900"]
        field_change_shot numeral_3_eq_3 numeral_2_eq_2)
  have 4: "advance 2000 (shot ''abc'' (Some 500) 800 [later 1 900, later 2 1300] 3 [snap ''ab'' 500])
             = shot ''abc'' (Some 1300) 2000 [] 3 [snap ''ab'' 500, snap ''abc'' 900, snap ''abc'' 1300]"
    by (simp add: advance_shot_fire[of _ 1 900] advance_shot_fire[of _ 2 1300] advance_shot_idle)
  show ?thesis unfolding burst_def 1 2 3 4 ..
qed

text \<open>
  C2 fails on the code: the burst of three changes, each 400 ms after the one before,
  leads to three calls of \<^verbatim>\<open>setItem\<close>, at 500, 900 and 1300, and the first of them stores
  the value \<^verbatim>\<open>ab\<close>, not the final \<^verbatim>\<open>abc\<close>. Every event creates a debounced function of its
  own, so no timer is ever cancelled (\<open>input_listener_eq\<close>).
\<close>

theorem debounce_burst:
  "setItem_calls burst = [snap ''ab'' 500, snap ''abc'' 900, snap ''abc'' 1300]"
  by (simp add: burst_eval shot_def)

section \<open>Properties of the codec\<close>

lemma map_of_insert_index:
  "k \<notin> fst ` set ob \<Longrightarrow>
   map_of (insert_index i k v ob) k' = (if k' = k then Some v else map_of ob k')"
  by (induction ob) (auto split: option.splits)

lemma obj_get_obj_set:
  "obj_get (obj_set k v ob) k' = (if k' = k then Some v else obj_get ob k')"
proof (cases "k \<in> set (map fst ob)")
  case True
  then have "map_of ob k \<noteq> None" by (simp add: map_of_eq_None_iff)
  with True show ?thesis by (simp add: obj_get_def obj_set_def map_of_replace_prop)
next
  case False
  then have "map_of ob k = None" by (simp add: map_of_eq_None_iff)
  with False show ?thesis
    by (auto simp add: obj_get_def obj_set_def map_of_insert_index map_add_def
        split: option.splits)
qed

lemma keys_replace_prop: "fst ` set (replace_prop k v ob) = fst ` set ob"
  by (induction ob) auto

lemma keys_insert_index: "fst ` set (insert_index i k v ob) = insert k (fst ` set ob)"
  by (induction ob) (auto split: option.splits)

lemma keys_obj_set': "fst ` set (obj_set k v ob) = insert k (fst ` set ob)"
  by (auto simp add: obj_set_def keys_replace_prop keys_insert_index split: option.splits)

lemma keys_obj_set: "obj_keys (obj_set k v ob) = insert k (obj_keys ob)"
  by (simp add: obj_keys_def keys_obj_set')





lemma obj_get_keys: "obj_get ob k = Some v \<Longrightarrow> k \<in> obj_keys ob"
  by (auto simp add: obj_get_def obj_keys_def dest: map_of_SomeD intro: rev_image_eqI)

lemma obj_get_None: "obj_get ob k = None \<longleftrightarrow> k \<notin> obj_keys ob"
  by (simp add: obj_get_def obj_keys_def map_of_eq_None_iff)

lemma mem_obj_keys: "(k, v) \<in> set ob \<Longrightarrow> k \<in> obj_keys ob"
  by (auto simp add: obj_keys_def intro: rev_image_eqI)

lemma accumulate_merge:
  "accumulate excl st kv =
     (if fst kv \<in> set excl then Inr st
      else if obj_get st (fst kv) = None \<and> fst kv \<in> set inherited then Inl Unmodelled
      else Inr (obj_set (fst kv) (merge (obj_get st (fst kv)) (snd kv)) st))"
  by (auto simp add: accumulate_def obj_read_def split: option.splits jsval.splits)

lemma accumulate_Inr:
  "accumulate excl st kv = Inr st' \<Longrightarrow>
   st' = (if fst kv \<in> set excl then st
          else obj_set (fst kv) (merge (obj_get st (fst kv)) (snd kv)) st)"
  by (auto simp add: accumulate_merge split: if_splits)

lemma obj_get_accumulate:
  "accumulate excl st kv = Inr st' \<Longrightarrow>
   obj_get st' k =
     (if k = fst kv \<and> k \<notin> set excl then Some (merge (obj_get st k) (snd kv)) else obj_get st k)"
  by (auto dest!: accumulate_Inr simp add: obj_get_obj_set)

lemma accumulate_all_Cons:
  assumes "accumulate_all excl st (kv # es) = Inr st'"
  obtains st1 where "accumulate excl st kv = Inr st1" "accumulate_all excl st1 es = Inr st'"
  using assms by (auto split: sum.splits)

lemma obj_get_accumulate_all:
  "accumulate_all excl st es = Inr st' \<Longrightarrow>
   obj_get st' k =
     (if k \<in> set excl then obj_get st k else collected (obj_get st k) (values_for k es))"
proof (induction es arbitrary: st)
  case Nil
  then show ?case by (simp add: collected_def values_for_def)
next
  case (Cons kv es)
  from Cons.prems obtain st1 where
    1: "accumulate excl st kv = Inr st1" and 2: "accumulate_all excl st1 es = Inr st'"
    by (rule accumulate_all_Cons)
  show ?case
    by (simp add: Cons.IH[OF 2] obj_get_accumulate[OF 1] collected_def values_for_def)
qed

lemma keys_accumulate:
  "accumulate excl st kv = Inr st' \<Longrightarrow> obj_keys st' \<subseteq> obj_keys st \<union> ({fst kv} - set excl)"
  by (auto dest!: accumulate_Inr simp add: keys_obj_set split: if_splits)

lemma keys_accumulate_all:
  "accumulate_all excl st es = Inr st' \<Longrightarrow>
   obj_keys st' \<subseteq> obj_keys st \<union> (fst ` set es - set excl)"
proof (induction es arbitrary: st)
  case Nil
  then show ?case by simp
next
  case (Cons kv es)
  from Cons.prems obtain st1 where
    1: "accumulate excl st kv = Inr st1" and 2: "accumulate_all excl st1 es = Inr st'"
    by (rule accumulate_all_Cons)
  show ?case using Cons.IH[OF 2] keys_accumulate[OF 1] by auto
qed




lemma replace_prop_twice: "replace_prop k v (replace_prop k u ob) = replace_prop k v ob"
  by (induction ob) auto

lemma replace_prop_append:
  "k \<notin> fst ` set ob \<Longrightarrow> replace_prop k v (ob @ [(k, u)]) = ob @ [(k, v)]"
  by (induction ob) auto

lemma replace_prop_insert_index:
  "k \<notin> fst ` set ob \<Longrightarrow> replace_prop k v (insert_index i k u ob) = insert_index i k v ob"
  by (induction ob) (auto split: option.splits)

lemma obj_set_twice: "obj_set k v (obj_set k u ob) = obj_set k v ob"
proof -
  have in_keys: "k \<in> set (map fst (obj_set k u ob))"
    using keys_obj_set'[of k u ob] by simp
  show ?thesis
  proof (cases "k \<in> set (map fst ob)")
    case True
    then show ?thesis
      using in_keys by (simp add: obj_set_def replace_prop_twice keys_replace_prop)
  next
    case False
    then have nk: "k \<notin> fst ` set ob" by simp
    have "obj_set k v (obj_set k u ob) = replace_prop k v (obj_set k u ob)"
      using in_keys by (simp add: obj_set_def)
    also have "\<dots> = obj_set k v ob"
      using False nk
      by (simp add: obj_set_def replace_prop_append replace_prop_insert_index split: option.splits)
    finally show ?thesis .
  qed
qed

lemma track_unchecked_cases:
  "track_unchecked excl st c =
     (if name_of c \<in> set excl \<or> e_checked c then Inr st
      else case obj_get st ''_unchecked'' of
             None \<Rightarrow> Inr (obj_set ''_unchecked'' (Arr [Str (name_of c)]) st)
           | Some (Arr xs) \<Rightarrow> Inr (obj_set ''_unchecked'' (Arr (xs @ [Str (name_of c)])) st)
           | Some u \<Rightarrow> if truthy u then Inl TypeError
                       else Inr (obj_set ''_unchecked'' (Arr [Str (name_of c)]) st))"
proof (cases "name_of c \<in> set excl \<or> e_checked c")
  case True
  then show ?thesis by (auto simp add: track_unchecked_def)
next
  case False
  show ?thesis
  proof (cases "obj_get st ''_unchecked''")
    case None
    with False show ?thesis
      by (simp add: track_unchecked_def obj_get_obj_set obj_set_twice)
  next
    case (Some u)
    with False show ?thesis
      by (cases u) (simp_all add: track_unchecked_def obj_get_obj_set obj_set_twice)
  qed
qed


lemma track_unchecked_keys:
  "track_unchecked excl st c = Inr st' \<Longrightarrow> obj_keys st' \<subseteq> insert ''_unchecked'' (obj_keys st)"
  by (auto simp add: track_unchecked_cases keys_obj_set split: if_splits option.splits jsval.splits)



lemma track_all_keys:
  "track_all excl st cs = Inr st' \<Longrightarrow> obj_keys st' \<subseteq> insert ''_unchecked'' (obj_keys st)"
proof (induction cs arbitrary: st)
  case Nil
  then show ?case by auto
next
  case (Cons c cs)
  then obtain st1 where 1: "track_unchecked excl st c = Inr st1" and 2: "track_all excl st1 cs = Inr st'"
    by (auto split: sum.splits)
  show ?case using Cons.IH[OF 2] track_unchecked_keys[OF 1] by auto
qed


lemma pushed_step:
  "listlike u \<Longrightarrow> pushed (pushed u [n]) ns = pushed u (n # ns)"
  by (cases u; cases ns) (auto simp add: listlike_def split: jsval.splits)

lemma listlike_pushed: "listlike u \<Longrightarrow> listlike (pushed u ns)"
  by (cases u; cases ns) (auto simp add: listlike_def split: jsval.splits)

lemma track_all_unchecked:
  "listlike (obj_get st ''_unchecked'') \<Longrightarrow>
   \<exists>st'. track_all excl st cs = Inr st'
     \<and> obj_get st' ''_unchecked''
         = pushed (obj_get st ''_unchecked'')
             (map name_of (filter (\<lambda>c. name_of c \<notin> set excl \<and> \<not> e_checked c) cs))"
proof (induction cs arbitrary: st)
  case Nil
  then show ?case by simp
next
  case (Cons c cs)
  show ?case
  proof (cases "name_of c \<in> set excl \<or> e_checked c")
    case True
    then have "track_unchecked excl st c = Inr st" by (simp add: track_unchecked_cases)
    with True Cons.IH[OF Cons.prems] show ?thesis by auto
  next
    case False
    let ?u = "obj_get st ''_unchecked''"
    obtain st1 where 1: "track_unchecked excl st c = Inr st1"
      and 2: "obj_get st1 ''_unchecked'' = pushed ?u [name_of c]"
      using False Cons.prems
      by (cases ?u) (auto simp add: track_unchecked_cases listlike_def obj_get_obj_set split: jsval.splits)
    have "listlike (obj_get st1 ''_unchecked'')"
      unfolding 2 using Cons.prems by (rule listlike_pushed)
    from Cons.IH[OF this] obtain st' where 3: "track_all excl st1 cs = Inr st'"
      and 4: "obj_get st' ''_unchecked''
         = pushed (obj_get st1 ''_unchecked'')
             (map name_of (filter (\<lambda>c. name_of c \<notin> set excl \<and> \<not> e_checked c) cs))"
      by blast
    show ?thesis
      using False 1 3 4 pushed_step[OF Cons.prems] by (simp add: 2)
  qed
qed

lemma obj_get_record_radio:
  "k \<noteq> ''__proto__'' \<Longrightarrow>
   obj_get (record_radio excl st r) k =
     (if k = name_of r \<and> k \<notin> set excl then Some (Str (e_value r)) else obj_get st k)"
  by (auto simp add: record_radio_def obj_get_obj_set)

lemma obj_get_foldl_record_radio:
  "k \<noteq> ''__proto__'' \<Longrightarrow>
   obj_get (foldl (record_radio excl) st rs) k =
     (if k \<in> set excl then obj_get st k
      else case filter (\<lambda>r. name_of r = k) rs of
             [] \<Rightarrow> obj_get st k
           | r # rs' \<Rightarrow> Some (Str (e_value (last (r # rs')))))"
proof (induction rs arbitrary: st)
  case Nil
  show ?case by simp
next
  case (Cons r rs)
  show ?case
    by (simp add: Cons.IH[OF Cons.prems] obj_get_record_radio[OF Cons.prems] split: list.splits)
qed

lemma keys_foldl_record_radio:
  "obj_keys (foldl (record_radio excl) st rs) \<subseteq> obj_keys st \<union> (name_of ` set rs - set excl)"
proof (induction rs arbitrary: st)
  case Nil
  show ?case by simp
next
  case (Cons r rs)
  have "obj_keys (record_radio excl st r) \<subseteq> obj_keys st \<union> ({name_of r} - set excl)"
    by (auto simp add: record_radio_def keys_obj_set)
  then show ?case using Cons.IH[of "record_radio excl st r"] by auto
qed


lemma fst_entries_of: "kv \<in> set (entries_of e) \<Longrightarrow> fst kv = name_of e"
  by (auto simp add: entries_of_def split: if_splits kind.splits)

lemma keys_FormData: "fst ` set (FormData f) \<subseteq> name_of ` set (elems f)"
  by (auto simp add: FormData_def dest!: fst_entries_of)

lemma values_for_entries_of:
  "values_for k (entries_of e) = (if name_of e = k then map snd (entries_of e) else [])"
proof (cases "name_of e = k")
  case True
  then have "filter (\<lambda>kv. fst kv = k) (entries_of e) = entries_of e"
    by (auto simp add: filter_id_conv dest: fst_entries_of)
  with True show ?thesis by (simp add: values_for_def)
next
  case False
  then have "filter (\<lambda>kv. fst kv = k) (entries_of e) = []"
    by (auto simp add: filter_empty_conv dest: fst_entries_of)
  with False show ?thesis by (simp add: values_for_def)
qed

lemma values_for_FormData:
  "values_for k (FormData f) =
     concat (map (\<lambda>e. map snd (entries_of e)) (filter (\<lambda>e. name_of e = k) (elems f)))"
proof -
  have "values_for k (concat (map entries_of es)) =
     concat (map (\<lambda>e. map snd (entries_of e)) (filter (\<lambda>e. name_of e = k) es))" for es
  proof (induction es)
    case Nil
    show ?case by (simp add: values_for_def)
  next
    case (Cons e es)
    have "values_for k (concat (map entries_of (e # es)))
        = values_for k (entries_of e) @ values_for k (concat (map entries_of es))"
      by (simp add: values_for_def)
    then show ?case by (simp add: Cons.IH values_for_entries_of)
  qed
  then show ?thesis by (simp add: FormData_def)
qed

lemma extract_Inr:
  assumes "extractFormState excl f = Inr st"
  obtains st0 st1 where
    "accumulate_all excl [] (FormData f) = Inr st0"
    "track_all excl st0 (filter (\<lambda>e. e_kind e = Checkbox) (elems f)) = Inr st1"
    "st = obj_set ''_custom'' (Custom (extractCustomElements f))
            (foldl (record_radio excl) st1 (filter (\<lambda>e. e_kind e = Radio \<and> e_checked e) (elems f)))"
  using assms by (auto simp add: extractFormState_def split: sum.splits)


lemma extract_keys:
  assumes "extractFormState excl f = Inr st"
  shows "obj_keys st \<subseteq> {''_unchecked'', ''_custom''} \<union> (name_of ` set (elems f) - set excl)"
proof -
  from assms obtain st0 st1 where
    0: "accumulate_all excl [] (FormData f) = Inr st0"
    and 1: "track_all excl st0 (filter (\<lambda>e. e_kind e = Checkbox) (elems f)) = Inr st1"
    and 2: "st = obj_set ''_custom'' (Custom (extractCustomElements f))
            (foldl (record_radio excl) st1 (filter (\<lambda>e. e_kind e = Radio \<and> e_checked e) (elems f)))"
    by (rule extract_Inr)
  have a: "obj_keys st0 \<subseteq> name_of ` set (elems f) - set excl"
    using keys_accumulate_all[OF 0] keys_FormData[of f]
    by (auto simp add: obj_keys_def)
  have b: "obj_keys st1 \<subseteq> insert ''_unchecked'' (obj_keys st0)"
    by (rule track_all_keys[OF 1])
  have c: "obj_keys (foldl (record_radio excl) st1 (filter (\<lambda>e. e_kind e = Radio \<and> e_checked e) (elems f)))
      \<subseteq> obj_keys st1 \<union> (name_of ` set (elems f) - set excl)"
    using keys_foldl_record_radio[of excl st1 "filter (\<lambda>e. e_kind e = Radio \<and> e_checked e) (elems f)"]
    by auto
  show ?thesis unfolding 2 keys_obj_set using a b c by blast
qed


lemma no_unchecked_value:
  assumes "''_unchecked'' \<notin> name_of ` set (elems f)"
      and "accumulate_all excl [] (FormData f) = Inr st0"
  shows "obj_get st0 ''_unchecked'' = None"
proof -
  have "filter (\<lambda>e. name_of e = ''_unchecked'') (elems f) = []"
    using assms(1) by (force simp add: filter_empty_conv image_iff)
  then have "values_for ''_unchecked'' (FormData f) = []" by (simp add: values_for_FormData)
  then show ?thesis
    by (simp add: obj_get_accumulate_all[OF assms(2)] collected_def) (simp add: obj_get_def)
qed

lemma extract_unchecked:
  assumes "''_unchecked'' \<notin> name_of ` set (elems f)"
      and "extractFormState excl f = Inr st"
  shows "obj_get st ''_unchecked'' = pushed None (unchecked_names excl (elems f))"
proof -
  from assms(2) obtain st0 st1 where
    0: "accumulate_all excl [] (FormData f) = Inr st0"
    and 1: "track_all excl st0 (filter (\<lambda>e. e_kind e = Checkbox) (elems f)) = Inr st1"
    and 2: "st = obj_set ''_custom'' (Custom (extractCustomElements f))
            (foldl (record_radio excl) st1 (filter (\<lambda>e. e_kind e = Radio \<and> e_checked e) (elems f)))"
    by (rule extract_Inr)
  have n: "obj_get st0 ''_unchecked'' = None"
    using assms(1) 0 by (rule no_unchecked_value)
  then have "listlike (obj_get st0 ''_unchecked'')" by (simp add: listlike_def)
  from track_all_unchecked[OF this, of excl "filter (\<lambda>e. e_kind e = Checkbox) (elems f)"] 1
  have 3: "obj_get st1 ''_unchecked'' = pushed None (unchecked_names excl (elems f))"
    by (auto simp add: n unchecked_names_def conj_commute conj_left_commute)
  have r: "filter (\<lambda>x. e_kind x = Radio \<and> e_checked x \<and> name_of x = ''_unchecked'') (elems f) = []"
    using assms(1) by (force simp add: filter_empty_conv image_iff)
  show ?thesis
    unfolding 2 using 3 by (simp add: obj_get_obj_set obj_get_foldl_record_radio r)
qed


subsection \<open>Decoding touches only the elements it names\<close>

lemma map_list_update_keep:
  assumes "map f xs = map f ys" and "i < length ys \<longrightarrow> f x = f (ys ! i)"
  shows "map f (xs[i := x]) = map f ys"
proof (cases "i < length xs")
  case True
  from assms(1) have len: "length xs = length ys" by (metis length_map)
  have "map f (xs[i := x]) = (map f ys)[i := (map f ys) ! i]"
    using True len assms by (simp add: map_update)
  then show ?thesis by simp
next
  case False
  then have "length xs \<le> i" by simp
  then have "xs[i := x] = xs" by (rule list_update_beyond)
  then show ?thesis using assms(1) by simp
qed

lemma uncheck_group_props:
  "length (uncheck_group a es) = length es"
  "map e_name (uncheck_group a es) = map e_name es"
  "map e_kind (uncheck_group a es) = map e_kind es"
  by (simp_all add: uncheck_group_def)

lemma uncheck_group_nth:
  "j < length es \<Longrightarrow> uncheck_group a es ! j
     = (if same_group a (es ! j) then (es ! j)\<lparr>e_checked := False\<rparr> else es ! j)"
  by (simp add: uncheck_group_def)

lemma set_checked_props:
  "length (set_checked es i b) = length es"
  "map e_name (set_checked es i b) = map e_name es"
  "map e_kind (set_checked es i b) = map e_kind es"
  by (simp_all add: set_checked_def uncheck_group_props map_list_update_keep)

lemma set_checked_other:
  assumes "j < length es" and "e_name (es ! j) \<noteq> e_name (es ! i)"
  shows "set_checked es i b ! j = es ! j"
proof -
  from assms(2) have ne: "j \<noteq> i" by auto
  have "\<not> same_group (es ! i) (es ! j)" using assms(2) by (auto simp add: same_group_def)
  then show ?thesis
    using assms(1) ne by (simp add: set_checked_def uncheck_group_nth uncheck_group_props)
qed

lemma restore_element_props:
  "length (restore_element v es i) = length es"
  "map e_name (restore_element v es i) = map e_name es"
  "map e_kind (restore_element v es i) = map e_kind es"
  by (simp_all add: restore_element_def Let_def set_checked_props map_list_update_keep
      split: kind.splits)

lemma restore_element_other:
  assumes "j < length es" and "e_name (es ! j) \<noteq> e_name (es ! i)"
  shows "restore_element v es i ! j = es ! j"
proof -
  from assms(2) have ne: "j \<noteq> i" by auto
  show ?thesis
    using assms ne
    by (simp add: restore_element_def Let_def set_checked_other split: kind.splits)
qed

lemma nth_of_map_eq: "map f xs = map f ys \<Longrightarrow> i < length ys \<Longrightarrow> f (xs ! i) = f (ys ! i)"
  by (metis length_map nth_map)

lemma foldl_restore_element:
  assumes "\<forall>i \<in> set is. i < length es \<and> e_name (es ! i) = Some k"
  shows "length (foldl (restore_element v) es is) = length es
       \<and> map e_name (foldl (restore_element v) es is) = map e_name es
       \<and> map e_kind (foldl (restore_element v) es is) = map e_kind es
       \<and> (\<forall>j < length es. e_name (es ! j) \<noteq> Some k \<longrightarrow> foldl (restore_element v) es is ! j = es ! j)"
  using assms
proof (induction "is" arbitrary: es)
  case Nil
  show ?case by simp
next
  case (Cons i "is")
  let ?es = "restore_element v es i"
  have len: "length ?es = length es" and nm: "map e_name ?es = map e_name es"
    and kd: "map e_kind ?es = map e_kind es"
    by (simp_all add: restore_element_props)
  have nth_nm: "e_name (?es ! j) = e_name (es ! j)" if "j < length es" for j
    using nth_of_map_eq[OF nm that] .
  have i: "i < length es" "e_name (es ! i) = Some k" using Cons.prems by simp_all
  have "\<forall>i' \<in> set is. i' < length ?es \<and> e_name (?es ! i') = Some k"
    using Cons.prems by (simp add: len nth_nm)
  from Cons.IH[OF this]
  have ih: "length (foldl (restore_element v) ?es is) = length es"
    "map e_name (foldl (restore_element v) ?es is) = map e_name es"
    "map e_kind (foldl (restore_element v) ?es is) = map e_kind es"
    "\<And>j. j < length es \<Longrightarrow> e_name (es ! j) \<noteq> Some k \<Longrightarrow> foldl (restore_element v) ?es is ! j = ?es ! j"
    by (simp_all add: len nm kd nth_nm)
  have "foldl (restore_element v) ?es is ! j = es ! j"
    if "j < length es" "e_name (es ! j) \<noteq> Some k" for j
    using ih(4)[OF that] restore_element_other[of j es i v] that i by simp
  then show ?case using ih(1-3) by simp
qed

lemma named_valid:
  "named es k = Inr is \<Longrightarrow> i \<in> set is \<Longrightarrow> i < length es \<and> e_name (es ! i) = Some k"
  by (auto simp add: named_def split: if_splits)

lemma restoreField_frame:
  assumes "restoreField f k v = Inr f'"
  shows "length (elems f') = length (elems f)
   \<and> map e_name (elems f') = map e_name (elems f)
   \<and> map e_kind (elems f') = map e_kind (elems f)
   \<and> (\<forall>j < length (elems f). e_name (elems f ! j) \<noteq> Some k \<longrightarrow> elems f' ! j = elems f ! j)"
proof -
  from assms obtain "is" where n: "named (elems f) k = Inr is"
    and f': "f' = f\<lparr>elems := foldl (restore_element v) (elems f) is\<rparr>"
    by (auto simp add: restoreField_def split: sum.splits)
  have "\<forall>i \<in> set is. i < length (elems f) \<and> e_name (elems f ! i) = Some k"
    using named_valid[OF n] by blast
  from foldl_restore_element[OF this, of v] show ?thesis by (simp add: f')
qed

lemma restore_entry_frame:
  assumes "restore_entry f kv = Inr f'"
  shows "length (elems f') = length (elems f)
   \<and> map e_name (elems f') = map e_name (elems f)
   \<and> map e_kind (elems f') = map e_kind (elems f)
   \<and> (\<forall>j < length (elems f).
         (startsWith_underscore (fst kv) \<or> e_name (elems f ! j) \<noteq> Some (fst kv))
         \<longrightarrow> elems f' ! j = elems f ! j)"
proof (cases "startsWith_underscore (fst kv)")
  case True
  then show ?thesis using assms by (simp add: restore_entry_def)
next
  case False
  then have "restoreField f (fst kv) (snd kv) = Inr f'"
    using assms by (simp add: restore_entry_def)
  from restoreField_frame[OF this] show ?thesis using False by simp
qed

lemma restore_entries_Cons:
  assumes "restore_entries f (kv # st) = Inr f'"
  obtains f1 where "restore_entry f kv = Inr f1" "restore_entries f1 st = Inr f'"
  using assms by (auto split: sum.splits)

lemma restore_entries_frame:
  "restore_entries f st = Inr f' \<Longrightarrow>
   length (elems f') = length (elems f)
   \<and> map e_name (elems f') = map e_name (elems f)
   \<and> map e_kind (elems f') = map e_kind (elems f)
   \<and> (\<forall>j < length (elems f). (\<forall>k \<in> generic_keys st. e_name (elems f ! j) \<noteq> Some k) \<longrightarrow>
        elems f' ! j = elems f ! j)"
proof (induction st arbitrary: f)
  case Nil
  then show ?case by simp
next
  case (Cons kv st)
  from Cons.prems obtain f1 where
    1: "restore_entry f kv = Inr f1" and 2: "restore_entries f1 st = Inr f'"
    by (rule restore_entries_Cons)
  note fr = restore_entry_frame[OF 1]
  have len: "length (elems f1) = length (elems f)" and nm: "map e_name (elems f1) = map e_name (elems f)"
    and kd: "map e_kind (elems f1) = map e_kind (elems f)"
    using fr by simp_all
  have nth_nm: "e_name (elems f1 ! j) = e_name (elems f ! j)" if "j < length (elems f)" for j
    using nth_of_map_eq[OF nm that] .
  have step: "elems f1 ! j = elems f ! j"
    if "j < length (elems f)" "\<forall>k \<in> generic_keys (kv # st). e_name (elems f ! j) \<noteq> Some k" for j
  proof (cases "startsWith_underscore (fst kv)")
    case True
    then show ?thesis using fr that(1) by simp
  next
    case False
    then have "fst kv \<in> generic_keys (kv # st)" by (simp add: generic_keys_def obj_keys_def)
    with that have "e_name (elems f ! j) \<noteq> Some (fst kv)" by blast
    then show ?thesis using fr that(1) by simp
  qed
  have sub: "generic_keys st \<subseteq> generic_keys (kv # st)"
    by (auto simp add: generic_keys_def obj_keys_def)
  have "elems f' ! j = elems f ! j"
    if "j < length (elems f)" "\<forall>k \<in> generic_keys (kv # st). e_name (elems f ! j) \<noteq> Some k" for j
  proof -
    have "\<forall>k \<in> generic_keys st. e_name (elems f1 ! j) \<noteq> Some k"
      using that sub by (auto simp add: nth_nm)
    then have "elems f' ! j = elems f1 ! j"
      using Cons.IH[OF 2] that(1) by (simp add: len)
    then show ?thesis using step[OF that] by simp
  qed
  then show ?case using Cons.IH[OF 2] by (simp add: len nm kd)
qed

lemma elems_restore_custom: "restore_custom f kv = Inr f' \<Longrightarrow> elems f' = elems f"
  by (auto simp add: restore_custom_def dropdown_of_def file_input_of_def displayFileInfo_def
      split: option.splits cval.splits sum.splits if_splits)

lemma elems_restoreCustomElements: "restoreCustomElements f custom = Inr f' \<Longrightarrow> elems f' = elems f"
proof (induction custom arbitrary: f)
  case Nil
  then show ?case by simp
next
  case (Cons kv custom)
  from Cons.prems obtain f1 where
    1: "restore_custom f kv = Inr f1" and 2: "restoreCustomElements f1 custom = Inr f'"
    by (auto split: sum.splits)
  show ?case using Cons.IH[OF 2] elems_restore_custom[OF 1] by simp
qed

lemma elems_custom_pass:
  assumes "(case obj_get st ''_custom'' of
              Some (Custom custom) \<Rightarrow> restoreCustomElements f1 custom
            | _ \<Rightarrow> Inr f1) = Inr f2"
  shows "elems f2 = elems f1"
  using assms by (auto simp add: elems_restoreCustomElements split: option.splits jsval.splits)

lemma force_unchecked_frame:
  assumes "force_unchecked f x = Inr f'"
  shows "length (elems f') = length (elems f)
   \<and> map e_name (elems f') = map e_name (elems f)
   \<and> map e_kind (elems f') = map e_kind (elems f)
   \<and> (\<forall>j < length (elems f). e_name (elems f ! j) \<noteq> Some (to_string x) \<longrightarrow>
        elems f' ! j = elems f ! j)"
proof (cases "find (\<lambda>i. e_kind (elems f ! i) = Checkbox \<and> e_name (elems f ! i) = Some (to_string x))
             [0 ..< length (elems f)]")
  case None
  then show ?thesis using assms by (auto simp add: force_unchecked_def split: if_splits)
next
  case (Some i)
  then have i: "e_name (elems f ! i) = Some (to_string x)"
    by (auto simp add: find_Some_iff)
  have f': "f' = f\<lparr>elems := set_checked (elems f) i False\<rparr>"
    using assms Some by (auto simp add: force_unchecked_def split: if_splits)
  show ?thesis
    using i set_checked_other[of _ "elems f" i False]
    by (simp add: f' set_checked_props)
qed

lemma force_all_frame:
  "force_all f xs = Inr f' \<Longrightarrow>
   length (elems f') = length (elems f)
   \<and> map e_name (elems f') = map e_name (elems f)
   \<and> map e_kind (elems f') = map e_kind (elems f)
   \<and> (\<forall>j < length (elems f). (\<forall>x \<in> set xs. e_name (elems f ! j) \<noteq> Some (to_string x)) \<longrightarrow>
        elems f' ! j = elems f ! j)"
proof (induction xs arbitrary: f)
  case Nil
  then show ?case by simp
next
  case (Cons x xs)
  from Cons.prems obtain f1 where
    1: "force_unchecked f x = Inr f1" and 2: "force_all f1 xs = Inr f'"
    by (auto split: sum.splits)
  have fr: "length (elems f1) = length (elems f)"
    "map e_name (elems f1) = map e_name (elems f)"
    "map e_kind (elems f1) = map e_kind (elems f)"
    "\<And>j. j < length (elems f) \<Longrightarrow> e_name (elems f ! j) \<noteq> Some (to_string x)
        \<Longrightarrow> elems f1 ! j = elems f ! j"
    using force_unchecked_frame[OF 1] by simp_all
  have nth_nm: "e_name (elems f1 ! j) = e_name (elems f ! j)" if "j < length (elems f)" for j
    using nth_of_map_eq[OF fr(2) that] .
  have "elems f' ! j = elems f ! j"
    if "j < length (elems f)" "\<forall>y \<in> set (x # xs). e_name (elems f ! j) \<noteq> Some (to_string y)" for j
  proof -
    have "\<forall>y \<in> set xs. e_name (elems f1 ! j) \<noteq> Some (to_string y)"
      using that by (simp add: nth_nm)
    then have "elems f' ! j = elems f1 ! j"
      using Cons.IH[OF 2] that(1) by (simp add: fr(1))
    then show ?thesis using fr(4)[of j] that by simp
  qed
  then show ?case using Cons.IH[OF 2] by (simp add: fr(1-3))
qed

lemma obj_get_json_state: "obj_get (json_state st) k = map_option json (obj_get st k)"
  unfolding obj_get_def json_state_def by (induction st) auto

lemma obj_keys_json_state: "obj_keys (json_state st) = obj_keys st"
  by (simp add: obj_keys_def json_state_def image_image)

lemma generic_keys_json_state: "generic_keys (json_state st) = generic_keys st"
  by (simp add: generic_keys_def obj_keys_json_state)

lemma json_Strs: "json (Arr (map Str ns)) = Arr (map Str ns)"
  by (simp add: comp_def)

lemma applyFormState_frame:
  assumes "j < length (elems g)"
      and "\<forall>k \<in> generic_keys st. e_name (elems g ! j) \<noteq> Some k"
      and "\<forall>xs. obj_get st ''_unchecked'' = Some (Arr xs)
              \<longrightarrow> (\<forall>x \<in> set xs. e_name (elems g ! j) \<noteq> Some (to_string x))"
  shows "elems (fst (applyFormState g st)) ! j = elems g ! j"
proof (cases "restore_entries g st")
  case (Inl err)
  then show ?thesis by (simp add: applyFormState_def)
next
  case (Inr f1)
  have f1: "length (elems f1) = length (elems g)" "map e_name (elems f1) = map e_name (elems g)"
    "elems f1 ! j = elems g ! j"
    using restore_entries_frame[OF Inr] assms(1,2) by simp_all
  show ?thesis
  proof (cases "case obj_get st ''_custom'' of
                  Some (Custom custom) \<Rightarrow> restoreCustomElements f1 custom
                | _ \<Rightarrow> Inr f1")
    case (Inl err)
    then show ?thesis using \<open>restore_entries g st = Inr f1\<close> by (simp add: applyFormState_def)
  next
    case c: (Inr f2)
    have e2: "elems f2 = elems f1" using c by (rule elems_custom_pass)
    show ?thesis
    proof (cases "obj_get st ''_unchecked''")
      case None
      then show ?thesis
        using \<open>restore_entries g st = Inr f1\<close> c by (simp add: applyFormState_def e2 f1)
    next
      case (Some u)
      show ?thesis
      proof (cases u)
        case (Arr xs)
        show ?thesis
        proof (cases "force_all f2 xs")
          case (Inl err)
          then show ?thesis
            using \<open>restore_entries g st = Inr f1\<close> c Some Arr by (simp add: applyFormState_def)
        next
          case u: (Inr f3)
          have nm: "e_name (elems f2 ! j) = e_name (elems g ! j)" by (simp add: e2 f1)
          have "\<forall>x \<in> set xs. e_name (elems f2 ! j) \<noteq> Some (to_string x)"
            using assms(3) Some Arr by (simp add: nm)
          then have "elems f3 ! j = elems f2 ! j"
            using force_all_frame[OF u] assms(1) by (simp add: e2 f1)
          then show ?thesis
            using \<open>restore_entries g st = Inr f1\<close> c Some Arr u
            by (simp add: applyFormState_def e2 f1)
        qed
      qed (use Some c \<open>restore_entries g st = Inr f1\<close> in \<open>simp_all add: applyFormState_def e2 f1\<close>)
    qed
  qed
qed

subsection \<open>The names in a snapshot of a form are the names of its controls\<close>

lemma pushed_None: "pushed None ns = (if ns = [] then None else Some (Arr (map Str ns)))"
  by (cases ns) simp_all

lemma selector_safe_append [simp]:
  "selector_safe (a @ b) \<longleftrightarrow> selector_safe a \<and> selector_safe b"
  by (simp add: selector_safe_def)

lemma set_remove_first: "set (remove_first p s) \<subseteq> set s"
proof (induction s)
  case Nil
  show ?case by simp
next
  case (Cons c cs)
  have "set (drop (length p) (c # cs)) \<subseteq> set (c # cs)" by (rule set_drop_subset)
  then show ?case using Cons by auto
qed

lemma selector_safe_remove_first: "selector_safe s \<Longrightarrow> selector_safe (remove_first p s)"
  using set_remove_first[of p s] by (auto simp add: selector_safe_def list_all_iff)

lemma selector_safe_suffix: "selector_safe ''_open''" "selector_safe ''_files''"
  by (simp_all add: selector_safe_def)

lemma keys_custom_open:
  "obj_keys (custom_open f c d) \<subseteq> obj_keys c \<union> (\<lambda>e. name_of e @ ''_open'') ` set (elems f)"
  by (auto simp add: custom_open_def dropdown_input_def keys_obj_set find_Some_iff
      split: option.splits)

lemma keys_custom_files:
  "obj_keys (custom_files f c u) \<subseteq> obj_keys c \<union> (\<lambda>e. name_of e @ ''_files'') ` set (elems f)"
  by (auto simp add: custom_files_def uploader_input_def keys_obj_set find_Some_iff
      split: option.splits)

lemma keys_foldl_custom_open:
  "obj_keys (foldl (custom_open f) c ds) \<subseteq> obj_keys c \<union> (\<lambda>e. name_of e @ ''_open'') ` set (elems f)"
proof (induction ds arbitrary: c)
  case Nil
  show ?case by simp
next
  case (Cons d ds)
  show ?case using Cons.IH[of "custom_open f c d"] keys_custom_open[of f c d] by auto
qed

lemma keys_foldl_custom_files:
  "obj_keys (foldl (custom_files f) c us) \<subseteq> obj_keys c \<union> (\<lambda>e. name_of e @ ''_files'') ` set (elems f)"
proof (induction us arbitrary: c)
  case Nil
  show ?case by simp
next
  case (Cons u us)
  show ?case using Cons.IH[of "custom_files f c u"] keys_custom_files[of f c u] by auto
qed

lemma keys_extractCustomElements:
  "obj_keys (extractCustomElements f)
     \<subseteq> (\<lambda>e. name_of e @ ''_open'') ` set (elems f) \<union> (\<lambda>e. name_of e @ ''_files'') ` set (elems f)"
proof -
  let ?c = "foldl (custom_open f) [] (filter (\<lambda>d. dropdowns f ! d) [0 ..< length (dropdowns f)])"
  have "obj_keys ?c \<subseteq> (\<lambda>e. name_of e @ ''_open'') ` set (elems f)"
    using keys_foldl_custom_open[of f "[]"] by (simp add: obj_keys_def)
  then show ?thesis
    using keys_foldl_custom_files[of f ?c "[0 ..< uploaders f]"]
    unfolding extractCustomElements_def by blast
qed

lemma selector_names_safe:
  assumes gen: "\<forall>k \<in> generic_keys st. selector_safe k"
      and cus: "\<forall>c. obj_get st ''_custom'' = Some (Custom c) \<longrightarrow> (\<forall>k \<in> obj_keys c. selector_safe k)"
      and unc: "\<forall>xs. obj_get st ''_unchecked'' = Some (Arr xs) \<longrightarrow> (\<forall>x \<in> set xs. selector_safe (to_string x))"
  shows "list_all selector_safe (selector_names st)"
proof -
  have 1: "list_all selector_safe (filter (\<lambda>k. \<not> startsWith_underscore k) (map fst st))"
    using gen by (auto simp add: list_all_iff generic_keys_def obj_keys_def)
  have 2: "list_all selector_safe
      (case obj_get st ''_custom'' of
          Some (Custom custom) \<Rightarrow>
            map (remove_first ''_open'') (filter (\<lambda>k. endsWith k ''_open'') (map fst custom))
            @ map (remove_first ''_files'') (filter (\<lambda>k. endsWith k ''_files'') (map fst custom))
        | _ \<Rightarrow> [])"
  proof (cases "obj_get st ''_custom''")
    case None
    then show ?thesis by simp
  next
    case (Some v)
    show ?thesis
    proof (cases v)
      case (Custom c)
      have "\<forall>k \<in> fst ` set c. selector_safe k"
        using cus Some Custom by (simp add: obj_keys_def)
      then show ?thesis
        using Some Custom by (auto simp add: list_all_iff intro: selector_safe_remove_first)
    qed (use Some in simp_all)
  qed
  have 3: "list_all selector_safe
      (case obj_get st ''_unchecked'' of Some (Arr names) \<Rightarrow> map to_string names | _ \<Rightarrow> [])"
  proof (cases "obj_get st ''_unchecked''")
    case None
    then show ?thesis by simp
  next
    case (Some v)
    show ?thesis
    proof (cases v)
      case (Arr xs)
      then show ?thesis using unc Some by (auto simp add: list_all_iff)
    qed (use Some in simp_all)
  qed
  show ?thesis unfolding selector_names_def using 1 2 3 by simp
qed

lemma extract_selector_names:
  assumes "extractFormState excl f = Inr st"
      and "''_unchecked'' \<notin> name_of ` set (elems f)"
      and "\<forall>e \<in> set (elems f). selector_safe (name_of e)"
  shows "list_all selector_safe (selector_names st)"
    and "list_all selector_safe (selector_names (json_state st))"
proof -
  have keys: "obj_keys st \<subseteq> {''_unchecked'', ''_custom''} \<union> (name_of ` set (elems f) - set excl)"
    by (rule extract_keys[OF assms(1)])
  have gen: "\<forall>k \<in> generic_keys st. selector_safe k"
    using keys assms(3) by (auto simp add: generic_keys_def)
  from assms(1) obtain st0 st1 where
    st: "st = obj_set ''_custom'' (Custom (extractCustomElements f))
            (foldl (record_radio excl) st1 (filter (\<lambda>e. e_kind e = Radio \<and> e_checked e) (elems f)))"
    by (rule extract_Inr)
  have c: "obj_get st ''_custom'' = Some (Custom (extractCustomElements f))"
    unfolding st by (simp add: obj_get_obj_set)
  have "\<forall>k \<in> obj_keys (extractCustomElements f). selector_safe k"
    using keys_extractCustomElements[of f] assms(3) by (auto simp add: selector_safe_suffix)
  then have cus: "\<forall>c. obj_get st ''_custom'' = Some (Custom c) \<longrightarrow> (\<forall>k \<in> obj_keys c. selector_safe k)"
    by (simp add: c)
  have u: "obj_get st ''_unchecked'' = pushed None (unchecked_names excl (elems f))"
    by (rule extract_unchecked[OF assms(2,1)])
  have ns: "\<forall>n \<in> set (unchecked_names excl (elems f)). selector_safe n"
    using assms(3) by (auto simp add: unchecked_names_def)
  have unc: "\<forall>xs. obj_get st ''_unchecked'' = Some (Arr xs) \<longrightarrow> (\<forall>x \<in> set xs. selector_safe (to_string x))"
    using ns by (auto simp add: u pushed_None split: if_splits)
  show "list_all selector_safe (selector_names st)"
    using gen cus unc by (rule selector_names_safe)
  have gen': "\<forall>k \<in> generic_keys (json_state st). selector_safe k"
    using gen by (simp add: generic_keys_json_state)
  have cus': "\<forall>c. obj_get (json_state st) ''_custom'' = Some (Custom c) \<longrightarrow> (\<forall>k \<in> obj_keys c. selector_safe k)"
    using cus by (simp add: obj_get_json_state c)
  have unc': "\<forall>xs. obj_get (json_state st) ''_unchecked'' = Some (Arr xs)
      \<longrightarrow> (\<forall>x \<in> set xs. selector_safe (to_string x))"
    using ns by (auto simp add: obj_get_json_state u pushed_None comp_def split: if_splits)
  show "list_all selector_safe (selector_names (json_state st))"
    using gen' cus' unc' by (rule selector_names_safe)
qed

text \<open>
  C5, amended: when no control of the encoded form is called \<^verbatim>\<open>_unchecked\<close> and every
  control name is free of double quotes, backslashes, line breaks and NUL, a name \<open>n\<close> of
  the exclusion list is a key of the encoded snapshot only if it is one of the two
  metadata keys, it is not in the list under \<^verbatim>\<open>_unchecked\<close>, and decoding that snapshot (as
  encoded, or after the trip through JSON) onto any form \<open>g\<close> stays within the model and
  leaves every control named \<open>n\<close> as it was.
\<close>

theorem excluded_field_untouched:
  assumes "n \<in> set excl"
      and "list_all (\<lambda>e. name_of e \<noteq> ''_unchecked'' \<and> selector_safe (name_of e)) (elems f)"
      and "extractFormState excl f = Inr st"
  shows "(n \<in> obj_keys st \<longrightarrow> n = ''_unchecked'' \<or> n = ''_custom'')
       \<and> (\<forall>xs. obj_get st ''_unchecked'' = Some (Arr xs) \<longrightarrow> Str n \<notin> set xs)
       \<and> snd (applyFormState g st) \<noteq> Some Unmodelled
       \<and> snd (applyFormState g (json_state st)) \<noteq> Some Unmodelled
       \<and> (\<forall>j < length (elems g). name_of (elems g ! j) = n \<longrightarrow>
             elems (fst (applyFormState g st)) ! j = elems g ! j
           \<and> elems (fst (applyFormState g (json_state st))) ! j = elems g ! j)"
proof -
  have keys: "n \<in> obj_keys st \<longrightarrow> n = ''_unchecked'' \<or> n = ''_custom''"
    using extract_keys[OF assms(3)] assms(1) by auto
  have nu: "''_unchecked'' \<notin> name_of ` set (elems f)"
    using assms(2) by (auto simp add: list_all_iff)
  have sf: "\<forall>e \<in> set (elems f). selector_safe (name_of e)"
    using assms(2) by (auto simp add: list_all_iff)
  have u: "obj_get st ''_unchecked'' = pushed None (unchecked_names excl (elems f))"
    by (rule extract_unchecked[OF nu assms(3)])
  have md: "snd (applyFormState g st) \<noteq> Some Unmodelled"
      "snd (applyFormState g (json_state st)) \<noteq> Some Unmodelled"
    using extract_selector_names[OF assms(3) nu sf] by (simp_all add: applyFormState_modelled)
  have nn: "n \<notin> set (unchecked_names excl (elems f))"
    using assms(1) by (auto simp add: unchecked_names_def)
  have un: "\<forall>xs. obj_get st ''_unchecked'' = Some (Arr xs) \<longrightarrow> Str n \<notin> set xs"
    using nn by (auto simp add: u pushed_None split: if_splits)
  have gen: "n \<notin> generic_keys st"
    using keys by (auto simp add: generic_keys_def)
  have fr: "elems (fst (applyFormState g st)) ! j = elems g ! j
          \<and> elems (fst (applyFormState g (json_state st))) ! j = elems g ! j"
    if j: "j < length (elems g)" and nm: "name_of (elems g ! j) = n" for j
  proof -
    have a: "\<forall>k \<in> generic_keys st. e_name (elems g ! j) \<noteq> Some k"
      using gen nm by (auto simp add: name_of_def)
    have b: "\<forall>xs. obj_get st ''_unchecked'' = Some (Arr xs)
              \<longrightarrow> (\<forall>x \<in> set xs. e_name (elems g ! j) \<noteq> Some (to_string x))"
      using nn nm by (auto simp add: u pushed_None name_of_def split: if_splits)
    have b': "\<forall>xs. obj_get (json_state st) ''_unchecked'' = Some (Arr xs)
              \<longrightarrow> (\<forall>x \<in> set xs. e_name (elems g ! j) \<noteq> Some (to_string x))"
      using nn nm
      by (auto simp add: obj_get_json_state u pushed_None name_of_def comp_def split: if_splits)
    show ?thesis
      using applyFormState_frame[OF j a b]
        applyFormState_frame[OF j a[folded generic_keys_json_state[of st]] b']
      by simp
  qed
  show ?thesis using keys un md fr by blast
qed

lemmas sample_defs = control_def form_of_def default_options_def

lemma extract_guarded:
  "extractFormState (excludeFields default_options) guarded_form
     = Inr [(''email'', Str ''a@b.com''), (''_custom'', Custom [])]"
  by (simp add: guarded_form_def codec_defs sample_defs)


lemma extract_topics:
  "extractFormState (excludeFields default_options) (topics_form False)
     = Inr [(''_unchecked'', Arr [Str ''topics[]'', Str ''topics[]'']), (''_custom'', Custom [])]"
  by (simp add: topics_form_def codec_defs sample_defs)

lemmas decode_defs =
  applyFormState_def restore_entry_def restoreField_def named_def restore_element_def
  set_checked_def uncheck_group_def same_group_def force_unchecked_def obj_get_def
  selector_safe_def

text \<open>
  C4 fails on the code: two checkboxes with the same name are both unchecked when the
  form is encoded, and both checked by default in the freshly rendered form. The
  snapshot has no entry for the name and lists it twice under \<^verbatim>\<open>_unchecked\<close>; decoding
  unchecks the first box twice and leaves the second one checked.
\<close>

theorem unchecked_group_partly_restored:
  "extractFormState (excludeFields default_options) (topics_form False)
     = Inr [(''_unchecked'', Arr [Str ''topics[]'', Str ''topics[]'']), (''_custom'', Custom [])]
   \<and> map e_checked (elems (fst (applyFormState (topics_form True)
         [(''_unchecked'', Arr [Str ''topics[]'', Str ''topics[]'']), (''_custom'', Custom [])])))
     = [False, True]"
  by (simp add: extract_topics) (simp add: topics_form_def decode_defs sample_defs)

text \<open>
  C6 fails on the code: two text fields share the name \<^verbatim>\<open>phone\<close>, the first is empty, the
  second holds \<^verbatim>\<open>456\<close>. The snapshot holds the one string \<^verbatim>\<open>456\<close> under the name, not the
  list of the two values: \<^verbatim>\<open>if (state[key])\<close> takes the empty string that is already there
  for no value at all, and the second value replaces it.
\<close>

theorem extractFormState_blank_first:
  "map e_value (filter (\<lambda>e. name_of e = ''phone'') (elems blank_first_form)) = [[], ''456'']
   \<and> extractFormState (excludeFields default_options) blank_first_form
       = Inr [(''phone'', Str ''456''), (''_custom'', Custom [])]"
  by (simp add: blank_first_form_def codec_defs sample_defs)

theorem excluded_field_untouched_witness:
  "''honeypot'' \<in> set (excludeFields default_options)
   \<and> extractFormState (excludeFields default_options) guarded_form
       = Inr [(''email'', Str ''a@b.com''), (''_custom'', Custom [])]
   \<and> ''honeypot'' \<notin> obj_keys [(''email'', Str ''a@b.com''), (''_custom'', Custom [])]
   \<and> snd (applyFormState guarded_form [(''email'', Str ''a@b.com''), (''_custom'', Custom [])])
       \<noteq> Some Unmodelled
   \<and> elems (fst (applyFormState guarded_form [(''email'', Str ''a@b.com''), (''_custom'', Custom [])])) ! 1
       = control Text ''honeypot'' ''bot'' False"
proof -
  have n: "''honeypot'' \<in> set (excludeFields default_options)"
    by (simp add: default_options_def)
  have u: "list_all (\<lambda>e. name_of e \<noteq> ''_unchecked'' \<and> selector_safe (name_of e)) (elems guarded_form)"
    by (simp add: guarded_form_def sample_defs name_of_def selector_safe_def)
  have j: "1 < length (elems guarded_form)" "name_of (elems guarded_form ! 1) = ''honeypot''"
    "elems guarded_form ! 1 = control Text ''honeypot'' ''bot'' False"
    by (simp_all add: guarded_form_def sample_defs name_of_def)
  note T = excluded_field_untouched[OF n u extract_guarded, of guarded_form]
  have "''honeypot'' \<notin> obj_keys [(''email'', Str ''a@b.com''), (''_custom'', Custom [])]"
    using T[THEN conjunct1] by auto
  moreover have "snd (applyFormState guarded_form [(''email'', Str ''a@b.com''), (''_custom'', Custom [])])
       \<noteq> Some Unmodelled"
    using T[THEN conjunct2, THEN conjunct2, THEN conjunct1] .
  moreover have "elems (fst (applyFormState guarded_form [(''email'', Str ''a@b.com''), (''_custom'', Custom [])])) ! 1
       = control Text ''honeypot'' ''bot'' False"
    using T[THEN conjunct2, THEN conjunct2, THEN conjunct2, THEN conjunct2] j by auto
  ultimately show ?thesis using n extract_guarded by blast
qed

text \<open>
  C5, as stated, fails: \<^verbatim>\<open>restoreField\<close> does not look at the exclusion list. A stored
  snapshot with a value for \<^verbatim>\<open>CRAFT_CSRF_TOKEN\<close> (written under another configuration, say)
  is written into that field when the form is registered, although the name is
  excluded.
\<close>

theorem excluded_field_counterexample:
  "''CRAFT_CSRF_TOKEN'' \<in> set (excludeFields (options token_sys))
   \<and> map e_value (elems token_form) = [''fresh'']
   \<and> map_option (\<lambda>fd. map e_value (elems (element fd)))
        (forms_get (registerForm token_sys token_form []) ''contact'') = Some [''stale'']"
proof -
  let ?fd = "\<lparr>element = token_form, storageKey = ''freeform_state_contact'', lastSaved = None\<rparr>"
  let ?env = "\<lparr>env_state = [(''CRAFT_CSRF_TOKEN'', Str ''stale''), (''_custom'', Custom [])],
                    env_timestamp = 0, env_url = []\<rparr>"
  let ?s1 = "forms_set token_sys ''contact'' ?fd"
  have a: "applyFormState token_form [(''CRAFT_CSRF_TOKEN'', Str ''stale''), (''_custom'', Custom [])]
      = (token_form\<lparr>elems := [control Hidden ''CRAFT_CSRF_TOKEN'' ''stale'' False]\<rparr>, None)"
    by (simp add: token_form_def decode_defs sample_defs)
  have o: "options token_sys = default_options" "now ?s1 = 0"
    by (simp_all add: token_sys_def fresh_def forms_set_def)
  have i: "form_id token_form = ''contact''" by (simp add: token_form_def form_of_def)
  have r: "registerForm token_sys token_form [] = restoreFormState ?s1 ''contact''"
    by (simp add: registerForm_def Let_def i o) (simp add: default_options_def)
  have g: "forms_get ?s1 ''contact'' = Some ?fd" by (simp add: forms_get_forms_set)
  have st: "getItem token_sys ''freeform_state_contact'' = Some (Parsed ?env)"
    by (simp add: getItem_def token_sys_def fresh_def default_options_def)
  have g': "getItem ?s1 (storageKey ?fd) = Some (Parsed ?env)"
    using st by simp
  have fresh: "\<not> maxAge < now ?s1 - env_timestamp ?env"
    by (simp add: maxAge_def) (simp add: token_sys_def fresh_def)
  have safe: "list_all selector_safe (selector_names (env_state ?env))"
    by (simp add: selector_names_def selector_safe_def obj_get_def)
  have "map_option element (forms_get (restoreFormState ?s1 ''contact'') ''contact'')
      = Some (token_form\<lparr>elems := [control Hidden ''CRAFT_CSRF_TOKEN'' ''stale'' False]\<rparr>)"
    using restoreFormState_applies[OF g g' fresh safe] a by simp
  then have "map_option (\<lambda>fd. map e_value (elems (element fd)))
        (forms_get (registerForm token_sys token_form []) ''contact'') = Some [''stale'']"
    unfolding r
    by (cases "forms_get (restoreFormState ?s1 ''contact'') ''contact''") (auto simp add: control_def)
  moreover have "''CRAFT_CSRF_TOKEN'' \<in> set (excludeFields (options token_sys))"
    by (simp add: o default_options_def)
  moreover have "map e_value (elems token_form) = [''fresh'']"
    by (simp add: token_form_def sample_defs)
  ultimately show ?thesis by blast
qed

subsection \<open>A restore that wakes a listener\<close>

text \<open>
  The checkbox of the sample form lies in a \<^verbatim>\<open>.checklist\<close> container and the listeners are
  attached. Restoring the stored snapshot checks the box and dispatches a \<^verbatim>\<open>change\<close> event
  on it: the listener of the box arms a debounced save, due 500 ms later, and the
  listener of the container saves at once, so the entry in storage is written anew at
  the time of the restore.
\<close>

lemma restore_wakes_listeners:
  "setItem_calls (restoreFormState checklist_sys ''news'')
     = [(''freeform_state_news'',
         Parsed \<lparr>env_state = [(''agree'', Str ''yes''), (''_custom'', Custom [])], env_timestamp = 5,
                 env_url = ''https://example.org/contact''\<rparr>)]
   \<and> map t_due (timers (restoreFormState checklist_sys ''news'')) = [505]
   \<and> map_option lastSaved (forms_get (restoreFormState checklist_sys ''news'') ''news'') = Some (Some 5)
   \<and> map_option (\<lambda>fd. map e_checked (elems (element fd)))
        (forms_get (restoreFormState checklist_sys ''news'') ''news'') = Some [True]"
proof -
  let ?box = "\<lambda>c. (control Checkbox ''agree'' ''yes'' c)\<lparr>e_savers := Suc 0\<rparr>"
  let ?f = "\<lambda>c. (form_of ''news'' [?box c])\<lparr>listeners := Suc 0\<rparr>"
  let ?fd = "\<lambda>c. \<lparr>element = ?f c, storageKey = ''freeform_state_news'', lastSaved = None\<rparr>"
  let ?env = "\<lparr>env_state = [(''agree'', Str ''yes'')], env_timestamp = 0, env_url = []\<rparr>"
  have s: "checklist_sys = (fresh default_options)
      \<lparr>forms := [(''news'', ?fd False)],
       localStorage := [''freeform_state_news'' \<mapsto> Parsed ?env], now := 5\<rparr>"
    by (simp add: checklist_sys_def checklist_form_def attachFormListeners_def registerForm_def
        form_of_def fresh_def forms_set_def restoreFormState_def forms_get_def getItem_def Let_def
        default_options_def)
  have ap: "applyFormState (?f False) [(''agree'', Str ''yes'')] = (?f True, None)"
    by (simp add: decode_defs sample_defs)
  have ev: "change_events (?f False) [(''agree'', Str ''yes'')] = [(0, ?f True)]"
    by (simp add: restore_entry_def restoreField_def named_def restore_element_def set_checked_def
        selector_safe_def sample_defs)
  have ex: "extractFormState (excludeFields default_options) (?f True)
      = Inr [(''agree'', Str ''yes''), (''_custom'', Custom [])]"
    by (simp add: codec_defs sample_defs)
  let ?s0 = "(fresh default_options)
      \<lparr>forms := [(''news'', ?fd True)],
       localStorage := [''freeform_state_news'' \<mapsto> Parsed ?env], now := 5\<rparr>"
  have 1: "set_element checklist_sys ''news'' (?f True) = ?s0"
    by (simp add: s set_element_def forms_get_def forms_set_def)
  let ?tm = "\<lparr>t_id = 0, t_due = 505, t_task = Later 0 ''news''\<rparr>"
  let ?s1 = "?s0\<lparr>cells := [Some 0], timers := [?tm], next_timer := Suc 0\<rparr>"
  have a: "autoSave (options ?s0)" by (simp add: fresh_def default_options_def)
  have 2: "input_listener ?s0 ''news'' = ?s1"
    unfolding input_listener_eq[OF a] by (simp add: fresh_def)
  let ?new = "Parsed \<lparr>env_state = [(''agree'', Str ''yes''), (''_custom'', Custom [])], env_timestamp = 5,
                 env_url = ''https://example.org/contact''\<rparr>"
  let ?s2 = "?s1\<lparr>forms := [(''news'', (?fd True)\<lparr>lastSaved := Some 5\<rparr>)],
       localStorage := [''freeform_state_news'' \<mapsto> ?new],
       setItem_calls := [(''freeform_state_news'', ?new)]\<rparr>"
  have 3: "save_task ?s1 ''news'' = ?s2"
    using ex
    by (simp add: save_task_def saveFormState_def forms_get_def setItem_def forms_set_def fresh_def
        default_options_def json_state_def)
  have fg: "forms_get ?s0 ''news'' = Some (?fd True)" by (simp add: forms_get_def)
  have t: "elems (?f True) ! 0 = ?box True" by (simp add: form_of_def)
  have l: "listeners (?f True) = Suc 0" by simp
  have h: "has_change_listener (?box True)" by (simp add: has_change_listener_def control_def)
  have sv: "e_savers (?box True) = Suc 0" by simp
  have "change_event ?s0 ''news'' 0
      = ((\<lambda>u. save_task u ''news'') ^^ (Suc 0 * Suc 0)) (((\<lambda>u. input_listener u ''news'') ^^ Suc 0) ?s0)"
    by (simp only: change_event_def fg option.case Let_def formData.select_convs t l h sv if_True)
  also have "\<dots> = save_task (input_listener ?s0 ''news'') ''news''" by simp
  also have "\<dots> = ?s2" by (simp only: 2 3)
  finally have 4: "change_event ?s0 ''news'' 0 = ?s2" .
  have g: "forms_get checklist_sys ''news'' = Some (?fd False)"
    "getItem checklist_sys ''freeform_state_news'' = Some (Parsed ?env)"
    "now checklist_sys = 5"
    by (simp_all add: s forms_get_def getItem_def fresh_def default_options_def)
  have "restoreFormState checklist_sys ''news'' = ?s2"
    by (simp add: restoreFormState_def g maxAge_def ap ev 1 4 del: change_events.simps)
      (simp add: set_element_def forms_get_def forms_set_def)
  then show ?thesis
    by (simp add: forms_get_def control_def form_of_def)
qed

section \<open>The round trip\<close>

subsection \<open>What the hypothesis says\<close>





subsection \<open>Steps that change nothing\<close>

lemma list_update_self: "i < length es \<Longrightarrow> x = es ! i \<Longrightarrow> es[i := x] = es"
  by simp







subsection \<open>Lists\<close>



subsection \<open>Values collected for a key\<close>





































end
